(* ===== verification/Prelude.thy ===== *)
theory Prelude
  imports Main "HOL-Library.Word" "HOL-Library.Signed_Division"
begin

text \<open>
  Shared vocabulary of the development: machine integer types, the outcome of a piece of
  kernel code (it returns, or it stops for good), byte-addressed memory with little-endian
  words, alignment by bit masks, and decimal numerals.  Nothing here models a particular
  function of the repository; the component theories do.
\<close>

unbundle bit_operations_syntax

type_synonym u8 = "8 word"
type_synonym u16 = "16 word"
type_synonym u32 = "32 word"
type_synonym u64 = "64 word"
type_synonym ptr = "64 word"
type_synonym bytes = "8 word list"
type_synonym memory = "64 word \<Rightarrow> 8 word"

named_theorems mem_simps \<open>reading back memory after a write\<close>
named_theorems run_simps \<open>evaluation rules of outcomes and operations\<close>
named_theorems state_eqs \<open>operations in closed form: the fields they change\<close>

section \<open>Outcomes: returning or stopping\<close>

text \<open>
  Kernel code either returns a value with the new state, or never returns:
  \<open>Halted\<close> is a loop around \<open>hlt\<close> (panic, exit), \<open>Spinning\<close> is a polling loop whose
  device never becomes ready, and \<open>Undefined\<close> is C undefined behaviour (an array index out
  of bounds, signed overflow): nothing is claimed of the code from there on.
  The state at the stop is kept, so the output that precedes it can be stated.
\<close>

datatype stop = Halted | Spinning | Undefined

datatype ('a, 's) outcome = Ret 'a 's | Stop stop 's

primrec andThen :: "('a, 's) outcome \<Rightarrow> ('a \<Rightarrow> 's \<Rightarrow> ('b, 's) outcome) \<Rightarrow> ('b, 's) outcome" where
  "andThen (Ret x s) f = f x s"
| "andThen (Stop r s) f = Stop r s"

text \<open>A counted C loop: the body runs once per index, in order, until one run stops.\<close>

primrec forO :: "('i \<Rightarrow> 's \<Rightarrow> (unit, 's) outcome) \<Rightarrow> 'i list \<Rightarrow> 's \<Rightarrow> (unit, 's) outcome" where
  "forO f [] s = Ret () s"
| "forO f (i # is) s = andThen (f i s) (\<lambda>_. forO f is)"

definition returned :: "('a, 's) outcome \<Rightarrow> ('a \<times> 's) option" where
  "returned o' = (case o' of Ret x s \<Rightarrow> Some (x, s) | Stop r s \<Rightarrow> None)"

lemma returned_simps [simp]: "returned (Ret x s) = Some (x, s)" "returned (Stop r s) = None"
  by (simp_all add: returned_def)

text \<open>\<open>post Q o\<close>: if \<open>o\<close> returns, the value and the state satisfy \<open>Q\<close>.\<close>

definition post :: "('a \<Rightarrow> 's \<Rightarrow> bool) \<Rightarrow> ('a, 's) outcome \<Rightarrow> bool" where
  "post Q o' = (case o' of Ret x s \<Rightarrow> Q x s | Stop r s \<Rightarrow> True)"

lemma post_simps [simp, run_simps]:
  "post Q (Ret x s) = Q x s"
  "post Q (Stop r s)"
  by (simp_all add: post_def)

lemma post_andThen:
  "post R o' \<Longrightarrow> (\<And>x s. R x s \<Longrightarrow> post Q (f x s)) \<Longrightarrow> post Q (andThen o' f)"
  by (cases o') auto

lemma post_mono: "post R o' \<Longrightarrow> (\<And>x s. R x s \<Longrightarrow> Q x s) \<Longrightarrow> post Q o'"
  by (cases o') auto

lemma post_conj: "post Q o' \<Longrightarrow> post R o' \<Longrightarrow> post (\<lambda>x s. Q x s \<and> R x s) o'"
  by (cases o') auto

lemma post_forO:
  assumes "\<And>i s. i \<in> set is \<Longrightarrow> I s \<Longrightarrow> post (\<lambda>_. I) (f i s)" and "I s"
  shows "post (\<lambda>_. I) (forO f is s)"
  using assms
proof (induction "is" arbitrary: s)
  case Nil
  then show ?case by simp
next
  case (Cons i "is")
  show ?case unfolding forO.simps
  proof (rule post_andThen [where R = "\<lambda>_. I"])
    show "post (\<lambda>_. I) (f i s)" using Cons.prems by simp
    show "post (\<lambda>_. I) (forO f is t)" if "I t" for t
      using Cons.IH [OF _ that] Cons.prems(1) by simp
  qed
qed

lemma post_if: "(b \<Longrightarrow> post Q x) \<Longrightarrow> (\<not> b \<Longrightarrow> post Q y) \<Longrightarrow> post Q (if b then x else y)"
  by simp

text \<open>\<open>ends Q o\<close>: the state in which \<open>o\<close> returns or stops satisfies \<open>Q\<close>.\<close>

definition ends :: "('s \<Rightarrow> bool) \<Rightarrow> ('r, 's) outcome \<Rightarrow> bool" where
  "ends Q o' = (case o' of Ret x t \<Rightarrow> Q t | Stop r t \<Rightarrow> Q t)"

lemma ends_simps [simp]: "ends Q (Ret x t) = Q t" "ends Q (Stop r t) = Q t"
  by (simp_all add: ends_def)

lemma ends_andThen: "ends Q o' \<Longrightarrow> (\<And>x t. Q t \<Longrightarrow> ends Q (f x t)) \<Longrightarrow> ends Q (andThen o' f)"
  by (cases o') simp_all

lemma ends_if: "(b \<Longrightarrow> ends Q x) \<Longrightarrow> (\<not> b \<Longrightarrow> ends Q y) \<Longrightarrow> ends Q (if b then x else y)"
  by simp

lemma ends_mono: "ends R o' \<Longrightarrow> (\<And>s. R s \<Longrightarrow> Q s) \<Longrightarrow> ends Q o'"
  by (cases o') simp_all

lemma ends_post: "ends Q o' \<Longrightarrow> post (\<lambda>_. Q) o'"
  by (cases o') simp_all

lemma ends_forO:
  assumes "\<And>i s. I s \<Longrightarrow> ends I (f i s)" and "I s"
  shows "ends I (forO f is s)"
  using assms(2)
proof (induction "is" arbitrary: s)
  case (Cons i "is")
  show ?case unfolding forO.simps by (rule ends_andThen [OF assms(1) [OF Cons.prems] Cons.IH])
qed simp

lemma andThen_eq_Ret:
  "andThen o' f = Ret y t \<longleftrightarrow> (\<exists>x s. o' = Ret x s \<and> f x s = Ret y t)"
  by (cases o') auto

lemma andThen_stops: "(\<And>x s. \<exists>r t. f x s = Stop r t) \<Longrightarrow> \<exists>r t. andThen o' f = Stop r t"
  by (cases o') auto

lemma forO_append:
  "forO f (is @ js) s = andThen (forO f is s) (\<lambda>_. forO f js)"
proof (induction "is" arbitrary: s)
  case Nil
  then show ?case by simp
next
  case (Cons i "is")
  show ?case by (cases "f i s") (simp_all add: Cons.IH)
qed

section \<open>Polling loops\<close>

text \<open>
  \<open>spin f s\<close> is the loop \<open>while (!f()) ;\<close> for a test with side effects; \<open>None\<close> when the
  test never succeeds.
\<close>

partial_function (option) spin :: "('s \<Rightarrow> bool \<times> 's) \<Rightarrow> 's \<Rightarrow> 's option" where
  "spin f s = (if fst (f s) then Some (snd (f s)) else spin f (snd (f s)))"

primrec tries :: "('s \<Rightarrow> bool \<times> 's) \<Rightarrow> nat \<Rightarrow> 's \<Rightarrow> 's" where
  "tries f 0 s = s"
| "tries f (Suc n) s = tries f n (snd (f s))"

lemma spin_Some:
  "fst (f (tries f d s)) \<Longrightarrow> (\<And>j. j < d \<Longrightarrow> \<not> fst (f (tries f j s))) \<Longrightarrow> spin f s = Some (tries f (Suc d) s)"
proof (induction d arbitrary: s)
  case 0
  then show ?case by (subst spin.simps) simp
next
  case (Suc d)
  have "spin f (snd (f s)) = Some (tries f (Suc d) (snd (f s)))"
  proof (rule Suc.IH)
    show "fst (f (tries f d (snd (f s))))" using Suc.prems(1) by simp
    show "\<not> fst (f (tries f j (snd (f s))))" if "j < d" for j
      using Suc.prems(2) [of "Suc j"] that by simp
  qed
  moreover have "\<not> fst (f s)" using Suc.prems(2) [of 0] by simp
  ultimately show ?case by (subst spin.simps) simp
qed

lemma spin_SomeD:
  fixes s :: 's
  shows "spin f s = Some t \<Longrightarrow> \<exists>d. fst (f (tries f d s))"
proof (rule spin.raw_induct [where P = "\<lambda>f s t. \<exists>d. fst (f (tries f d s))"])
  fix g :: "('s \<Rightarrow> bool \<times> 's) \<Rightarrow> 's \<Rightarrow> 's option" and f :: "'s \<Rightarrow> bool \<times> 's" and s t
  assume IH: "\<And>f s t. g f s = Some t \<Longrightarrow> \<exists>d. fst (f (tries f d s))"
    and eq: "(if fst (f s) then Some (snd (f s)) else g f (snd (f s))) = Some t"
  show "\<exists>d. fst (f (tries f d s))"
  proof (cases "fst (f s)")
    case True
    then show ?thesis by (intro exI [of _ 0]) simp
  next
    case False
    with eq have "g f (snd (f s)) = Some t" by simp
    then obtain d where "fst (f (tries f d (snd (f s))))" using IH by blast
    then have "fst (f (tries f (Suc d) s))" by simp
    then show ?thesis ..
  qed
qed

lemma spin_None: "spin f s = None \<longleftrightarrow> (\<forall>d. \<not> fst (f (tries f d s)))"
proof
  assume n: "spin f s = None"
  show "\<forall>d. \<not> fst (f (tries f d s))"
  proof (rule ccontr)
    assume "\<not> ?thesis"
    then have ex: "\<exists>d. fst (f (tries f d s))" by blast
    define d where "d = (LEAST d. fst (f (tries f d s)))"
    have "spin f s = Some (tries f (Suc d) s)"
      using LeastI_ex [OF ex] not_less_Least unfolding d_def by (intro spin_Some) auto
    with n show False by simp
  qed
next
  assume "\<forall>d. \<not> fst (f (tries f d s))"
  then show "spin f s = None" using spin_SomeD [of f s] by (cases "spin f s") auto
qed

lemma spin_returns: "spin f s = Some t \<Longrightarrow> \<exists>d. spin f s = Some (tries f (Suc d) s)"
proof -
  assume t: "spin f s = Some t"
  then have ex: "\<exists>d. fst (f (tries f d s))" using spin_None [of f s] by auto
  define d where "d = (LEAST d. fst (f (tries f d s)))"
  have "spin f s = Some (tries f (Suc d) s)"
    using LeastI_ex [OF ex] not_less_Least unfolding d_def by (intro spin_Some) auto
  then show ?thesis by blast
qed

section \<open>Word arithmetic\<close>

lemma unat_bound: "unat (w :: 'a::len word) < 2 ^ LENGTH('a)"
  by (rule unsigned_less)

lemma word_of_nat_unat: "of_nat (unat w) = (w :: 'a::len word)"
  by simp

lemma unat_add_1: "i < n \<Longrightarrow> unat (i + 1 :: 'a::len word) = Suc (unat i)"
proof -
  assume "i < n"
  then have "unat i < unat n" by (simp add: word_less_nat_alt)
  with unat_bound [of n] have "Suc (unat i) < 2 ^ LENGTH('a)" by linarith
  then show ?thesis by (simp add: unat_word_ariths)
qed

section \<open>Byte memory\<close>

text \<open>Addresses wrap around at \<open>2 ^ 64\<close>; a region is a start address and a byte count.\<close>

definition in_region :: "ptr \<Rightarrow> nat \<Rightarrow> ptr \<Rightarrow> bool" where
  "in_region p n a \<longleftrightarrow> unat (a - p) < n"

definition mem_bytes :: "memory \<Rightarrow> ptr \<Rightarrow> nat \<Rightarrow> bytes" where
  "mem_bytes m p n = map (\<lambda>i. m (p + of_nat i)) [0..<n]"

definition mem_put :: "memory \<Rightarrow> ptr \<Rightarrow> bytes \<Rightarrow> memory" where
  "mem_put m p bs = (\<lambda>a. if unat (a - p) < length bs then bs ! unat (a - p) else m a)"

definition mem_set :: "memory \<Rightarrow> ptr \<Rightarrow> u8 \<Rightarrow> nat \<Rightarrow> memory" where
  "mem_set m p b n = (\<lambda>a. if unat (a - p) < n then b else m a)"

definition mem_copy :: "memory \<Rightarrow> ptr \<Rightarrow> ptr \<Rightarrow> nat \<Rightarrow> memory" where
  "mem_copy m d src n = (\<lambda>a. if unat (a - d) < n then m (src + (a - d)) else m a)"

primrec le_bytes :: "nat \<Rightarrow> 'a::len word \<Rightarrow> bytes" where
  "le_bytes 0 w = []"
| "le_bytes (Suc n) w = ucast w # le_bytes n (drop_bit 8 w)"

primrec of_le :: "bytes \<Rightarrow> 'a::len word" where
  "of_le [] = 0"
| "of_le (b # bs) = ucast b OR push_bit 8 (of_le bs)"

lemma length_le_bytes [simp]: "length (le_bytes n w) = n"
  by (induction n arbitrary: w) auto

lemma length_mem_bytes [simp]: "length (mem_bytes m p n) = n"
  by (simp add: mem_bytes_def)

lemma mem_bytes_none: "mem_bytes m p 0 = []"
  by (simp add: mem_bytes_def)

lemma nth_mem_bytes [simp]: "i < n \<Longrightarrow> mem_bytes m p n ! i = m (p + of_nat i)"
  by (simp add: mem_bytes_def)

lemma of_le_le_bytes: "of_le (le_bytes n w) = take_bit (8 * n) (w :: 'a::len word)"
proof (induction n arbitrary: w)
  case 0
  then show ?case by simp
next
  case (Suc n)
  show ?case
    by (rule bit_word_eqI)
       (auto simp: Suc.IH bit_simps not_le less_diff_conv2 dest: bit_imp_le_length)
qed

lemma unat_offset: "i < 2 ^ 64 \<Longrightarrow> unat (p + of_nat i - p :: ptr) = i"
  by (simp add: unat_of_nat)

lemma mem_bytes_put [mem_simps]:
  assumes "length bs < 2 ^ 64" shows "mem_bytes (mem_put m p bs) p (length bs) = bs"
  using assms by (intro nth_equalityI) (auto simp: mem_put_def unat_of_nat)

lemma mem_bytes_put_part:
  assumes "k + n \<le> length bs" and "length bs < 2 ^ 64"
  shows "mem_bytes (mem_put m p bs) (p + of_nat k) n = take n (drop k bs)"
proof (rule nth_equalityI)
  fix i assume "i < length (mem_bytes (mem_put m p bs) (p + of_nat k) n)"
  then have i: "i < n" by simp
  have "p + of_nat k + of_nat i - p = of_nat (k + i)" by simp
  then show "mem_bytes (mem_put m p bs) (p + of_nat k) n ! i = take n (drop k bs) ! i"
    using assms i by (simp add: mem_put_def unat_of_nat del: of_nat_add)
qed (use assms in simp)

lemma mem_bytes_set [mem_simps]:
  assumes "n < 2 ^ 64" shows "mem_bytes (mem_set m p b n) p n = replicate n b"
  using assms by (intro nth_equalityI) (auto simp: mem_set_def unat_of_nat)

lemma mem_bytes_copy [mem_simps]:
  assumes "n < 2 ^ 64" shows "mem_bytes (mem_copy m d src n) d n = mem_bytes m src n"
  using assms by (intro nth_equalityI) (auto simp: mem_copy_def unat_of_nat)

lemma mem_frames [mem_simps]:
  "\<not> in_region p (length bs) a \<Longrightarrow> mem_put m p bs a = m a"
  "\<not> in_region p n a \<Longrightarrow> mem_set m p b n a = m a"
  "\<not> in_region p n a \<Longrightarrow> mem_copy m p q n a = m a"
  by (simp_all add: in_region_def mem_put_def mem_set_def mem_copy_def)

lemma mem_put_Nil [simp]: "mem_put m p [] = m"
  by (simp add: mem_put_def)

lemma mem_put_append:
  assumes "length xs + length ys \<le> 2 ^ 64"
  shows "mem_put (mem_put m p xs) (p + of_nat (length xs)) ys = mem_put m p (xs @ ys)"
proof (cases "ys = []")
  case False
  then have xs: "length xs < 2 ^ 64" using assms by (cases ys) auto
  show ?thesis
  proof
    fix a
    define d where "d = a - p"
    have e: "a - (p + of_nat (length xs)) = d - of_nat (length xs)"
      by (simp add: d_def algebra_simps)
    show "mem_put (mem_put m p xs) (p + of_nat (length xs)) ys a = mem_put m p (xs @ ys) a"
    proof (cases "length xs \<le> unat d")
      case True
      then have "unat (d - of_nat (length xs)) = unat d - length xs"
        using xs by (simp add: unat_sub_if' unat_of_nat)
      with True show ?thesis by (auto simp: mem_put_def e nth_append simp flip: d_def)
    next
      case False
      then have "unat (d - of_nat (length xs)) = unat d + 2 ^ 64 - length xs"
        using xs by (simp add: unat_sub_if' unat_of_nat)
      then have "\<not> unat (d - of_nat (length xs)) < length ys" using assms by linarith
      with False show ?thesis by (simp add: mem_put_def e nth_append flip: d_def)
    qed
  qed
qed simp

text \<open>In an address range that does not wrap, a region is an interval of naturals.\<close>

lemma in_region_iff:
  assumes "unat p + n \<le> 2 ^ 64"
  shows "in_region p n a \<longleftrightarrow> unat p \<le> unat a \<and> unat a < unat p + n"
proof (cases "p \<le> a")
  case True
  then have "unat (a - p) = unat a - unat p" and "unat p \<le> unat a"
    by (simp_all add: unat_sub word_le_nat_alt)
  then show ?thesis by (auto simp: in_region_def)
next
  case False
  then have lt: "unat a < unat p" by (simp add: word_le_nat_alt)
  then have "unat (a - p) = 2 ^ 64 - (unat p - unat a)"
    by (simp add: unat_sub_if')
  with lt assms show ?thesis by (auto simp: in_region_def)
qed

lemma in_region_offset: "i < n \<Longrightarrow> i < 2 ^ 64 \<Longrightarrow> in_region p n (p + of_nat i)"
  by (simp add: in_region_def unat_of_nat)

lemma mem_bytes_cong:
  "(\<And>i. i < n \<Longrightarrow> m (p + of_nat i) = m' (p + of_nat i)) \<Longrightarrow> mem_bytes m p n = mem_bytes m' p n"
  by (simp add: mem_bytes_def)

lemma mem_bytes_frame:
  assumes "\<And>a. in_region p n a \<Longrightarrow> m a = m' a" and "n \<le> 2 ^ 64"
  shows "mem_bytes m p n = mem_bytes m' p n"
  using assms by (intro mem_bytes_cong) (simp add: in_region_offset)

lemma mem_bytes_Suc: "mem_bytes m p (Suc n) = mem_bytes m p n @ [m (p + of_nat n)]"
  by (simp add: mem_bytes_def)

lemma mem_bytes_take: "k \<le> n \<Longrightarrow> mem_bytes m p k = take k (mem_bytes m p n)"
  by (simp add: mem_bytes_def take_map)

lemma mem_bytes_drop:
  "k \<le> n \<Longrightarrow> mem_bytes m (p + of_nat k) (n - k) = drop k (mem_bytes m p n)"
  by (intro nth_equalityI) (simp_all add: add.assoc)

section \<open>Alignment by masks\<close>

lemma unat_and_not_mask:
  "unat (x AND NOT (mask k) :: 'a::len word) = unat x - unat x mod 2 ^ k"
proof -
  have "(x AND mask k) + (x AND NOT (mask k)) = (x AND mask k) OR (x AND NOT (mask k))"
    by (rule disjunctive_add) (simp add: bit_simps)
  also have "\<dots> = x"
    by (rule bit_word_eqI) (auto simp: bit_simps)
  finally have "x AND NOT (mask k) = x - take_bit k x"
    by (simp add: take_bit_eq_mask algebra_simps)
  moreover have "take_bit k x \<le> x"
    by (simp add: word_le_nat_alt unsigned_take_bit_eq take_bit_nat_less_eq_self)
  moreover have "unat (take_bit k x) = unat x mod 2 ^ k"
    by (simp add: unsigned_take_bit_eq take_bit_nat_def)
  ultimately show ?thesis by (simp add: unat_sub)
qed

text \<open>
  The idiom \<open>(x + (2^k - 1)) & ~(2^k - 1)\<close> on 64-bit words, and its value as long as
  the addition does not wrap around: the least multiple of \<open>2^k\<close> that is at least \<open>x\<close>.
\<close>

definition round_up :: "nat \<Rightarrow> nat \<Rightarrow> nat" where
  "round_up a x = (x + a - 1) - (x + a - 1) mod a"

lemma round_up_props:
  assumes "0 < a"
  shows "x \<le> round_up a x" and "round_up a x < x + a" and "a dvd round_up a x"
proof -
  have "(x + a - 1) mod a < a" using assms by simp
  moreover have "(x + a - 1) mod a \<le> x + a - 1" by (rule mod_less_eq_dividend)
  ultimately show "x \<le> round_up a x" and "round_up a x < x + a"
    using assms unfolding round_up_def by linarith+
  show "a dvd round_up a x" unfolding round_up_def by (rule dvd_minus_mod)
qed

lemma round_up_dvd: "0 < a \<Longrightarrow> a dvd x \<Longrightarrow> round_up a x = x"
proof -
  assume a: "0 < a" and d: "a dvd x"
  have "a dvd round_up a x - x" using round_up_props(3) [OF a] d by (rule dvd_diff_nat)
  moreover have "round_up a x - x < a" using round_up_props(1,2) [OF a, of x] a by linarith
  ultimately have "round_up a x - x = 0" using dvd_imp_le by fastforce
  then show ?thesis using round_up_props(1) [OF a, of x] by simp
qed

lemma unat_align:
  assumes "unat x + (2 ^ k - 1) < 2 ^ 64"
  shows "unat ((x + mask k) AND NOT (mask k) :: u64) = round_up (2 ^ k) (unat x)"
proof -
  have k: "2 ^ k \<le> (2 ^ 64 :: nat)" using assms by (simp add: algebra_simps)
  then have "k \<le> 64" by (rule power_le_imp_le_exp [rotated]) simp
  then have "int (unat (mask k :: u64)) = int (mask k)"
    by (simp add: uint_mask_eq min_absorb2 of_nat_mask_eq)
  then have m: "unat (mask k :: u64) = 2 ^ k - 1"
    unfolding of_nat_eq_iff by (simp add: mask_eq_exp_minus_1)
  have "unat (x + mask k) = unat x + (2 ^ k - 1)"
    using assms by (simp add: unat_word_ariths m)
  then show ?thesis by (simp add: unat_and_not_mask round_up_def)
qed

section \<open>Decimal numerals\<close>

text \<open>ASCII digits of a natural number, most significant first, and the value they denote.\<close>

fun decimal :: "nat \<Rightarrow> bytes" where
  "decimal n = (if n < 10 then [of_nat (48 + n)] else decimal (n div 10) @ [of_nat (48 + n mod 10)])"

declare decimal.simps [simp del]

definition digit_value :: "u8 \<Rightarrow> nat" where
  "digit_value c = unat c - 48"

definition decimal_value :: "bytes \<Rightarrow> nat" where
  "decimal_value ds = foldl (\<lambda>v c. v * 10 + digit_value c) 0 ds"

lemma digit_value_of_nat [simp]: "d < 10 \<Longrightarrow> digit_value (of_nat (48 + d)) = d"
  by (simp add: digit_value_def unat_of_nat del: of_nat_add)

lemma decimal_value_decimal: "decimal_value (decimal n) = n"
proof (induction n rule: decimal.induct)
  case (1 n)
  show ?case
  proof (cases "n < 10")
    case True
    then show ?thesis
      by (simp add: decimal.simps [of n] decimal_value_def digit_value_of_nat del: of_nat_add)
  next
    case False
    have d: "digit_value (of_nat (48 + n mod 10)) = n mod 10"
      by (rule digit_value_of_nat) simp
    from False have "decimal_value (decimal (n div 10)) = n div 10" using 1 by blast
    then show ?thesis using False
      by (simp add: decimal.simps [of n] decimal_value_def d del: of_nat_add)
  qed
qed

lemma decimal_digits: "c \<in> set (decimal n) \<Longrightarrow> 48 \<le> unat c \<and> unat c \<le> 57"
proof (induction n rule: decimal.induct)
  case (1 n)
  have d: "48 \<le> unat (of_nat (48 + d) :: u8) \<and> unat (of_nat (48 + d) :: u8) \<le> 57" if "d < 10" for d
    using that by (simp add: unat_of_nat del: of_nat_add)
  show ?case
  proof (cases "n < 10")
    case True
    then show ?thesis using 1(2) d [of n] by (simp add: decimal.simps [of n] del: of_nat_add)
  next
    case False
    then show ?thesis using 1 d [of "n mod 10"]
      by (auto simp: decimal.simps [of n] simp del: of_nat_add)
  qed
qed

text \<open>ASCII text as bytes, for the string literals of the sources.\<close>

definition ascii :: "string \<Rightarrow> bytes" where
  "ascii cs = map (\<lambda>c. of_nat (of_char c)) cs"

lemma ascii_simps [simp]:
  "ascii [] = []" "ascii (c # cs) = of_nat (of_char c) # ascii cs" "ascii (xs @ ys) = ascii xs @ ascii ys"
  by (simp_all add: ascii_def)

end
