(* ===== verification/Machine.thy ===== *)
theory Machine
  imports Prelude
begin

text \<open>
  The machine the kernel runs on: byte memory, I/O ports, the time stamp counter and a log of
  everything the kernel sends out.  Devices are not part of the repository, so nothing is
  assumed of them: what the k-th read of a port (or of the counter) returns is an arbitrary
  stream, and theorems hold for every stream unless they say otherwise.
  The state of the components extends this record, one extension per source file with
  static variables, so that every operation here applies to the whole kernel's state.
\<close>

section \<open>State\<close>

datatype io_event =
    Outb u16 u8                        \<comment> \<open>\<open>outb\<close>: a byte to a port\<close>
  | Wrmsr u32 u32 u32                  \<comment> \<open>\<open>wrmsr\<close>: register, low half, high half\<close>
  | OutputString "u16 list"            \<comment> \<open>UEFI text output: UCS-2 without the terminator\<close>
  | SetCursorPosition u64 u64          \<comment> \<open>column, row\<close>
  | ClearScreen
  | SetAttribute u64
  | CRuby string                       \<comment> \<open>a call into the CRuby library\<close>

record hw =
  mem :: memory
  port_in :: "u16 \<Rightarrow> nat \<Rightarrow> u8"         \<comment> \<open>what the k-th \<open>inb\<close> of a port returns\<close>
  port_pos :: "u16 \<Rightarrow> nat"             \<comment> \<open>how many times a port has been read\<close>
  tsc_in :: "nat \<Rightarrow> u64"               \<comment> \<open>what the k-th \<open>rdtsc\<close> returns\<close>
  tsc_pos :: nat
  evs :: "io_event list"               \<comment> \<open>everything sent, oldest first\<close>

section \<open>Instructions\<close>

definition emit :: "io_event \<Rightarrow> 'a hw_scheme \<Rightarrow> 'a hw_scheme" where
  "emit e s = s\<lparr>evs := evs s @ [e]\<rparr>"

definition outb :: "u16 \<Rightarrow> u8 \<Rightarrow> 'a hw_scheme \<Rightarrow> 'a hw_scheme" where
  "outb port value = emit (Outb port value)"

definition inb :: "u16 \<Rightarrow> 'a hw_scheme \<Rightarrow> u8 \<times> 'a hw_scheme" where
  "inb port s =
     (port_in s port (port_pos s port), s\<lparr>port_pos := (port_pos s)(port := Suc (port_pos s port))\<rparr>)"

text \<open>
  \<open>rdtsc\<close> leaves the counter's halves in two 32-bit registers; the code joins them.
\<close>

definition rdtsc :: "'a hw_scheme \<Rightarrow> u64 \<times> 'a hw_scheme" where
  "rdtsc s =
     (let t = tsc_in s (tsc_pos s);
          lo = (ucast t :: u32);
          hi = (ucast (drop_bit 32 t) :: u32)
      in (push_bit 32 (ucast hi) OR ucast lo, s\<lparr>tsc_pos := Suc (tsc_pos s)\<rparr>))"

definition wrmsr :: "u32 \<Rightarrow> u64 \<Rightarrow> 'a hw_scheme \<Rightarrow> 'a hw_scheme" where
  "wrmsr reg addr =
     emit (Wrmsr reg (ucast (addr AND 0xFFFFFFFF)) (ucast (drop_bit 32 addr)))"

section \<open>Memory access\<close>

definition load :: "nat \<Rightarrow> ptr \<Rightarrow> 'a hw_scheme \<Rightarrow> 'b::len word" where
  "load n p s = of_le (mem_bytes (mem s) p n)"

definition store :: "nat \<Rightarrow> ptr \<Rightarrow> 'b::len word \<Rightarrow> 'a hw_scheme \<Rightarrow> 'a hw_scheme" where
  "store n p w s = s\<lparr>mem := mem_put (mem s) p (le_bytes n w)\<rparr>"

abbreviation load16 :: "ptr \<Rightarrow> 'a hw_scheme \<Rightarrow> u16" where "load16 \<equiv> load 2"
abbreviation load32 :: "ptr \<Rightarrow> 'a hw_scheme \<Rightarrow> u32" where "load32 \<equiv> load 4"
abbreviation load64 :: "ptr \<Rightarrow> 'a hw_scheme \<Rightarrow> u64" where "load64 \<equiv> load 8"
abbreviation store8 :: "ptr \<Rightarrow> u8 \<Rightarrow> 'a hw_scheme \<Rightarrow> 'a hw_scheme" where "store8 \<equiv> store 1"
abbreviation store16 :: "ptr \<Rightarrow> u16 \<Rightarrow> 'a hw_scheme \<Rightarrow> 'a hw_scheme" where "store16 \<equiv> store 2"
abbreviation store32 :: "ptr \<Rightarrow> u32 \<Rightarrow> 'a hw_scheme \<Rightarrow> 'a hw_scheme" where "store32 \<equiv> store 4"
abbreviation store64 :: "ptr \<Rightarrow> u64 \<Rightarrow> 'a hw_scheme \<Rightarrow> 'a hw_scheme" where "store64 \<equiv> store 8"

definition memset :: "ptr \<Rightarrow> u8 \<Rightarrow> u64 \<Rightarrow> 'a hw_scheme \<Rightarrow> 'a hw_scheme" where
  "memset p b n s = s\<lparr>mem := mem_set (mem s) p b (unat n)\<rparr>"

definition memcpy :: "ptr \<Rightarrow> ptr \<Rightarrow> u64 \<Rightarrow> 'a hw_scheme \<Rightarrow> 'a hw_scheme" where
  "memcpy d src n s = s\<lparr>mem := mem_copy (mem s) d src (unat n)\<rparr>"

text \<open>
  The NUL-terminated string at an address, without its NUL; \<open>None\<close> when memory holds no
  NUL byte after the address.
\<close>

partial_function (option) cstring_at :: "memory \<Rightarrow> ptr \<Rightarrow> bytes option" where
  "cstring_at m p =
     (if m p = 0 then Some []
      else Option.bind (cstring_at m (p + 1)) (\<lambda>r. Some (m p # r)))"

section \<open>Lemmas\<close>

lemma emit_simps [simp]:
  "evs (emit e s) = evs s @ [e]" "mem (emit e s) = mem s" "port_in (emit e s) = port_in s"
  "port_pos (emit e s) = port_pos s" "tsc_in (emit e s) = tsc_in s" "tsc_pos (emit e s) = tsc_pos s"
  by (simp_all add: emit_def)

lemma load_store_same [mem_simps]:
  assumes "n < 2 ^ 64"
  shows "(load n p (store n p (w :: 'b::len word) s) :: 'b word) = take_bit (8 * n) w"
  using assms mem_bytes_put [of "le_bytes n w" "mem s" p]
  by (simp add: load_def store_def of_le_le_bytes)

lemma load_store_widths [mem_simps]:
  "load16 p (store16 p a s) = a" "load32 p (store32 p b s) = b" "load64 p (store64 p c s) = c"
  by (simp_all add: load_store_same take_bit_word_eq_self)

lemma load_store_other [mem_simps]:
  assumes "\<And>i. i < n \<Longrightarrow> m \<le> unat (p - q + of_nat i)"
  shows "load n p (store m q w s) = load n p s"
proof -
  have "mem_bytes (mem_put (mem s) q (le_bytes m w)) p n = mem_bytes (mem s) p n"
  proof (rule mem_bytes_cong)
    fix i assume "i < n"
    then have "\<not> unat (p + of_nat i - q) < length (le_bytes m w)"
      using assms [of i] by (simp add: algebra_simps not_less)
    then show "mem_put (mem s) q (le_bytes m w) (p + of_nat i) = mem s (p + of_nat i)"
      by (simp only: mem_put_def if_False)
  qed
  then show ?thesis by (simp add: load_def store_def)
qed

lemma mem_store [mem_simps]: "mem (store n p w s) = mem_put (mem s) p (le_bytes n w)"
  by (simp add: store_def)

lemma mem_memset [mem_simps]: "mem (memset p b n s) = mem_set (mem s) p b (unat n)"
  by (simp add: memset_def)

lemma mem_memcpy [mem_simps]: "mem (memcpy p q n s) = mem_copy (mem s) p q (unat n)"
  by (simp add: memcpy_def)

lemma rdtsc_value: "rdtsc s = (tsc_in s (tsc_pos s), s\<lparr>tsc_pos := Suc (tsc_pos s)\<rparr>)"
proof -
  have "(push_bit 32 (ucast (ucast (drop_bit 32 t) :: u32)) OR ucast (ucast t :: u32) :: u64) = t"
    for t :: u64
    by (rule bit_word_eqI) (auto simp: bit_simps not_less)
  then show ?thesis by (simp add: rdtsc_def Let_def)
qed

text \<open>The halves written by \<open>wrmsr\<close> make up the whole address.\<close>

lemma wrmsr_halves:
  "push_bit 32 (ucast (ucast (drop_bit 32 a) :: u32)) OR ucast (ucast (a AND 0xFFFFFFFF) :: u32) = (a :: u64)"
proof -
  have m: "(0xFFFFFFFF :: u64) = mask 32" by (simp add: mask_eq_exp_minus_1)
  show ?thesis unfolding m by (rule bit_word_eqI) (auto simp: bit_simps not_less)
qed

text \<open>A memory that holds the bytes of a string followed by NUL holds that C string.\<close>

lemma cstring_at_bytes:
  assumes "mem_bytes m p (length cs) = cs" and "m (p + of_nat (length cs)) = 0" and "0 \<notin> set cs"
  shows "cstring_at m p = Some cs"
  using assms
proof (induction cs arbitrary: p)
  case Nil
  then show ?case by (subst cstring_at.simps) simp
next
  case (Cons c cs)
  have split: "mem_bytes m p (Suc n) = m p # mem_bytes m (p + 1) n" for n
    by (rule nth_equalityI) (auto simp: nth_Cons algebra_simps split: nat.splits)
  from Cons.prems(1) have c: "m p = c" and tail: "mem_bytes m (p + 1) (length cs) = cs"
    by (simp_all add: split)
  have "cstring_at m (p + 1) = Some cs"
    using Cons.prems(2,3) by (intro Cons.IH tail) (simp_all add: algebra_simps)
  with c Cons.prems(3) show ?case by (subst cstring_at.simps) simp
qed

lemma cstring_at_no_nul: "cstring_at m p = Some cs \<Longrightarrow> 0 \<notin> set cs"
proof (rule cstring_at.raw_induct [where P = "\<lambda>m p cs. 0 \<notin> set cs"])
  fix f m p cs
  assume IH: "\<And>m p cs. f m p = Some cs \<Longrightarrow> 0 \<notin> set cs"
    and eq: "(if m p = 0 then Some [] else Option.bind (f m (p + 1)) (\<lambda>r. Some (m p # r))) = Some cs"
  show "0 \<notin> set cs" using eq IH by (auto split: if_splits simp: bind_eq_Some_conv)
qed

text \<open>A machine whose memory and inputs are all zero, the base of the concrete examples.\<close>

definition blank_hw :: hw where
  "blank_hw = \<lparr>mem = (\<lambda>_. 0), port_in = (\<lambda>_ _. 0), port_pos = (\<lambda>_. 0), tsc_in = (\<lambda>_. 0),
     tsc_pos = 0, evs = []\<rparr>"

end
