(* ===== verification/Serial.thy ===== *)
theory Serial
  imports Machine
begin

text \<open>
  The COM1 driver, kernel/serial.c: initialisation, output with CR inserted before LF,
  and blocking input.  The port addresses are the source's; what the ports answer is the
  machine's arbitrary stream.
\<close>

section \<open>Model\<close>

abbreviation COM1 :: u16 where "COM1 \<equiv> 0x3F8"

definition serial_init :: "'a hw_scheme \<Rightarrow> 'a hw_scheme" where
  "serial_init s0 =
     (let s1 = outb (COM1 + 1) 0x00 s0;
          s2 = outb (COM1 + 3) 0x80 s1;
          s3 = outb (COM1 + 0) 0x03 s2;
          s4 = outb (COM1 + 1) 0x00 s3;
          s5 = outb (COM1 + 3) 0x03 s4;
          s6 = outb (COM1 + 2) 0xC7 s5
      in outb (COM1 + 4) 0x0B s6)"

definition serial_putc :: "u8 \<Rightarrow> 'a hw_scheme \<Rightarrow> 'a hw_scheme" where
  "serial_putc c s =
     (let s1 = (if c = 10 then outb COM1 13 s else s)
      in outb COM1 c s1)"

primrec serial_puts :: "bytes \<Rightarrow> 'a hw_scheme \<Rightarrow> 'a hw_scheme" where
  "serial_puts [] s = s"
| "serial_puts (c # cs) s = serial_puts cs (serial_putc c s)"

definition serial_write :: "ptr \<Rightarrow> u64 \<Rightarrow> 'a hw_scheme \<Rightarrow> 'a hw_scheme" where
  "serial_write buf len s =
     fold (\<lambda>i s. serial_putc (mem s (buf + of_nat i)) s) [0..<unat len] s"

definition serial_data_ready :: "'a hw_scheme \<Rightarrow> u32 \<times> 'a hw_scheme" where
  "serial_data_ready s = (case inb (COM1 + 5) s of (b, s1) \<Rightarrow> (ucast (b AND 0x01), s1))"

text \<open>The polling loop of \<open>serial_getc\<close>; \<open>None\<close> when the line never becomes ready.\<close>

definition serial_wait :: "'a hw_scheme \<Rightarrow> 'a hw_scheme option" where
  "serial_wait = spin (\<lambda>s. case serial_data_ready s of (r, s1) \<Rightarrow> (r \<noteq> 0, s1))"

definition serial_getc :: "'a hw_scheme \<Rightarrow> (u32, 'a hw_scheme) outcome" where
  "serial_getc s =
     (case serial_wait s of
        None \<Rightarrow> Stop Spinning s
      | Some s1 \<Rightarrow> (case inb COM1 s1 of (b, s2) \<Rightarrow> Ret (ucast b) s2))"

text \<open>The loop \<open>while (i < len && serial_data_ready()) buf[i++] = inb(COM1);\<close>\<close>

function serial_read_loop :: "ptr \<Rightarrow> u64 \<Rightarrow> u64 \<Rightarrow> 'a hw_scheme \<Rightarrow> u64 \<times> 'a hw_scheme" where
  "serial_read_loop buf len i s =
     (if i < len
      then (case serial_data_ready s of (r, s1) \<Rightarrow>
              if r \<noteq> 0
              then (case inb COM1 s1 of (b, s2) \<Rightarrow>
                      serial_read_loop buf len (i + 1) (store8 (buf + i) b s2))
              else (i, s1))
      else (i, s))"
  by pat_completeness auto
termination
  by (relation "measure (\<lambda>(buf, len, i, s). unat len - unat i)")
     (auto simp: unat_add_1 word_less_nat_alt diff_less_mono2)

declare serial_read_loop.simps [simp del]

definition serial_read :: "ptr \<Rightarrow> u64 \<Rightarrow> 'a hw_scheme \<Rightarrow> (u64, 'a hw_scheme) outcome" where
  "serial_read buf len s =
     (if len = 0 then Ret 0 s
      else andThen (serial_getc s) (\<lambda>c s1.
             case serial_read_loop buf len 1 (store8 buf (ucast c) s1) of (n, s2) \<Rightarrow> Ret n s2))"

section \<open>Output\<close>

text \<open>What reaches the line for a text: each LF is preceded by a CR.\<close>

definition crlf :: "bytes \<Rightarrow> bytes" where
  "crlf cs = concat (map (\<lambda>c. if c = 10 then [13, 10] else [c]) cs)"

text \<open>The reader's inverse: CR LF is one line end, a lone CR is kept.\<close>

fun uncrlf :: "bytes \<Rightarrow> bytes" where
  "uncrlf [] = []"
| "uncrlf [c] = [c]"
| "uncrlf (c # d # cs) = (if c = 13 \<and> d = 10 then 10 # uncrlf cs else c # uncrlf (d # cs))"

definition com1 :: "bytes \<Rightarrow> io_event list" where
  "com1 cs = map (Outb COM1) (crlf cs)"

lemma crlf_simps [simp]:
  "crlf [] = []" "crlf (c # cs) = (if c = 10 then [13, 10] else [c]) @ crlf cs"
  "crlf (xs @ ys) = crlf xs @ crlf ys"
  by (simp_all add: crlf_def)

lemma com1_simps [simp]:
  "com1 [] = []" "com1 (xs @ ys) = com1 xs @ com1 ys"
  by (simp_all add: com1_def)

lemma crlf_head: "crlf cs \<noteq> 10 # ds"
  by (cases cs) auto

lemma uncrlf_crlf: "uncrlf (crlf cs) = cs"
proof (induction cs)
  case Nil
  then show ?case by simp
next
  case (Cons c cs)
  show ?case
  proof (cases "crlf cs")
    case Nil
    then have "cs = []" by (cases cs) (auto split: if_splits)
    then show ?thesis by simp
  next
    case tl: (Cons d ds)
    with crlf_head [of cs ds] have "d \<noteq> 10" by auto
    with tl Cons.IH show ?thesis by simp
  qed
qed

lemma serial_putc_eq [state_eqs]: "serial_putc c s = s\<lparr>evs := evs s @ com1 [c]\<rparr>"
  by (simp add: serial_putc_def outb_def emit_def com1_def)

lemma serial_puts_eq [state_eqs]: "serial_puts cs s = s\<lparr>evs := evs s @ com1 cs\<rparr>"
  by (induction cs arbitrary: s) (auto simp: serial_putc_eq com1_def)

lemma serial_write_upto:
  "fold (\<lambda>i s. serial_putc (mem s (buf + of_nat i)) s) [0..<n] s =
     s\<lparr>evs := evs s @ com1 (mem_bytes (mem s) buf n)\<rparr>"
  by (induction n) (simp_all add: serial_putc_eq mem_bytes_Suc, simp add: mem_bytes_def)

lemma serial_write_eq [state_eqs]:
  "serial_write buf len s = s\<lparr>evs := evs s @ com1 (mem_bytes (mem s) buf (unat len))\<rparr>"
  by (simp add: serial_write_def serial_write_upto)

section \<open>Input\<close>

abbreviation LSR :: u16 where "LSR \<equiv> 0x3FD"   \<comment> \<open>\<open>COM1 + 5\<close>\<close>

text \<open>Whether the k-th poll of the line status register finds a received byte.\<close>

definition rx_ready :: "'a hw_scheme \<Rightarrow> nat \<Rightarrow> bool" where
  "rx_ready s k \<longleftrightarrow> port_in s LSR k AND 1 \<noteq> 0"

abbreviation polls :: "'a hw_scheme \<Rightarrow> nat" where "polls s \<equiv> port_pos s LSR"
abbreviation received :: "'a hw_scheme \<Rightarrow> nat" where "received s \<equiv> port_pos s COM1"

definition polled :: "nat \<Rightarrow> 'a hw_scheme \<Rightarrow> 'a hw_scheme" where
  "polled n s = s\<lparr>port_pos := (port_pos s)(LSR := polls s + n)\<rparr>"

lemma and_1_cases: "(b :: 'a::len word) AND 1 = of_bool (odd b)"
  by (simp add: and_one_eq mod_2_eq_odd)

lemma serial_data_ready_eq:
  "fst (serial_data_ready s) \<noteq> 0 \<longleftrightarrow> rx_ready s (polls s)"
  "snd (serial_data_ready s) = polled 1 s"
  by (simp_all add: serial_data_ready_def inb_def rx_ready_def polled_def and_1_cases)

lemma polled_simps [simp]:
  "rx_ready (polled n s) = rx_ready s" "polls (polled n s) = polls s + n"
  "polled n (polled k s) = polled (k + n) s" "polled 0 s = s"
  "mem (polled n s) = mem s" "evs (polled n s) = evs s" "received (polled n s) = received s"
  "port_in (polled n s) = port_in s"
  by (simp_all add: polled_def rx_ready_def fun_eq_iff add.assoc)

lemma serial_tries:
  "tries (\<lambda>s. case serial_data_ready s of (r, s1) \<Rightarrow> (r \<noteq> 0, s1)) d s = polled d s"
  by (induction d arbitrary: s) (simp_all add: case_prod_beta serial_data_ready_eq)

lemma serial_wait_ready:
  "rx_ready s (polls s + d) \<Longrightarrow> (\<And>j. j < d \<Longrightarrow> \<not> rx_ready s (polls s + j)) \<Longrightarrow>
     serial_wait s = Some (polled (Suc d) s)"
  unfolding serial_wait_def serial_tries [symmetric]
  by (rule spin_Some) (simp_all only: serial_tries, simp_all add: case_prod_beta serial_data_ready_eq)

lemma serial_wait_None: "serial_wait s = None \<longleftrightarrow> (\<forall>d. \<not> rx_ready s (polls s + d))"
  unfolding serial_wait_def spin_None serial_tries by (simp add: case_prod_beta serial_data_ready_eq)

text \<open>
  The effect of taking bytes in: \<open>n\<close> polls of the status register, and the bytes
  \<open>bs\<close> read from the data register and stored from address \<open>p\<close> on.
\<close>

definition taken :: "nat \<Rightarrow> ptr \<Rightarrow> bytes \<Rightarrow> 'a hw_scheme \<Rightarrow> 'a hw_scheme" where
  "taken n p bs s =
     s\<lparr>mem := mem_put (mem s) p bs,
       port_pos := (port_pos s)(LSR := polls s + n, COM1 := received s + length bs)\<rparr>"

definition incoming :: "'a hw_scheme \<Rightarrow> nat \<Rightarrow> bytes" where
  "incoming s n = map (port_in s COM1) [received s..<received s + n]"

text \<open>The number of bytes read without waiting again, at most \<open>m\<close>.\<close>

definition burst :: "'a hw_scheme \<Rightarrow> nat \<Rightarrow> nat" where
  "burst s m = length (takeWhile (rx_ready s) [polls s..<polls s + m])"

lemma length_incoming [simp]: "length (incoming s n) = n"
  by (simp add: incoming_def)

lemma incoming_Suc: "incoming s (Suc n) = port_in s COM1 (received s) # map (port_in s COM1) [Suc (received s)..<Suc (received s) + n]"
  by (simp add: incoming_def upt_conv_Cons del: upt_Suc)

lemma burst_le: "burst s m \<le> m"
  unfolding burst_def using length_takeWhile_le [of "rx_ready s" "[polls s..<polls s + m]"] by simp

lemma burst_Suc:
  "burst s (Suc m) = (if rx_ready s (polls s) then Suc (burst (polled 1 s) m) else 0)"
  by (simp add: burst_def upt_conv_Cons del: upt_Suc)

lemma taken_simps [simp]:
  "rx_ready (taken n p bs s) = rx_ready s" "polls (taken n p bs s) = polls s + n"
  "received (taken n p bs s) = received s + length bs" "port_in (taken n p bs s) = port_in s"
  "mem (taken n p bs s) = mem_put (mem s) p bs" "evs (taken n p bs s) = evs s"
  by (simp_all add: taken_def rx_ready_def fun_eq_iff)

lemma burst_taken [simp]: "burst (taken n p bs s) m = burst (polled n s) m"
  by (simp add: burst_def)

lemma taken_taken:
  "length bs + length cs \<le> 2 ^ 64 \<Longrightarrow>
     taken n (p + of_nat (length bs)) cs (taken k p bs s) = taken (k + n) p (bs @ cs) s"
  by (simp add: taken_def mem_put_append fun_eq_iff add.assoc)

lemma taken_polled: "taken n p bs (polled k s) = taken (k + n) p bs s"
  by (simp add: taken_def polled_def add.assoc)

lemma taken_Nil [simp]: "taken n p [] s = polled n s"
proof -
  have "(port_pos s)(LSR := polls s + n, COM1 := received s) = (port_pos s)(LSR := polls s + n)"
    by (rule ext) simp
  then show ?thesis by (simp add: taken_def polled_def)
qed

lemma inb_com1:
  "fst (inb COM1 (polled n s)) = port_in s COM1 (received s)"
  "store (Suc 0) p b (snd (inb COM1 (polled n s))) = taken n p [b] s"
  by (simp_all add: inb_def polled_def taken_def store_def fun_eq_iff)

lemma serial_read_loop_eq:
  assumes "i \<le> len" and "m = unat len - unat i" and "k = burst s m"
  shows "serial_read_loop buf len i s =
     (i + of_nat k, taken (if k = m then m else Suc k) (buf + i) (incoming s k) s)"
  using assms
proof (induction m arbitrary: i s k)
  case 0
  then have "i = len" by (simp add: word_le_nat_alt unat_eq_nat_uint [symmetric] order_antisym word_unat_eq_iff)
  with 0 show ?case by (simp add: serial_read_loop.simps burst_def incoming_def taken_def)
next
  case (Suc m)
  then have lt: "i < len" by (simp add: word_less_nat_alt)
  note unfold = serial_read_loop.simps [of buf len i s]
  show ?case
  proof (cases "rx_ready s (polls s)")
    case False
    with Suc.prems(3) have "k = 0" by (simp add: burst_Suc)
    with False lt show ?thesis
      by (simp add: unfold serial_data_ready_eq case_prod_beta incoming_def)
  next
    case True
    let ?b = "port_in s COM1 (received s)"
    let ?t = "taken 1 (buf + i) [?b] s"
    let ?k = "burst ?t m"
    have k: "k = Suc ?k" using True Suc.prems(3) by (simp add: burst_Suc)
    have "m < 2 ^ 64" using Suc.prems(2) unat_bound [of len] by simp
    then have bound: "length [?b] + length (incoming ?t ?k) \<le> 2 ^ 64"
      using burst_le [of ?t m] by simp
    have "i + 1 \<le> len" "m = unat len - unat (i + 1)"
      using lt Suc.prems by (simp_all add: unat_add_1 [OF lt] word_le_nat_alt word_less_nat_alt)
    from Suc.IH [OF this refl]
    have "serial_read_loop buf len (i + 1) ?t =
      (i + 1 + of_nat ?k, taken (if ?k = m then m else Suc ?k) (buf + i + of_nat (length [?b])) (incoming ?t ?k) ?t)"
      by (simp add: add.assoc)
    moreover have "[?b] @ incoming ?t ?k = incoming s k"
      by (simp add: k incoming_Suc) (simp add: incoming_def)
    ultimately have "serial_read_loop buf len (i + 1) ?t =
      (i + of_nat k, taken (if k = Suc m then Suc m else Suc k) (buf + i) (incoming s k) s)"
      unfolding taken_taken [OF bound] by (simp add: k algebra_simps)
    moreover have "serial_read_loop buf len i s = serial_read_loop buf len (i + 1) ?t"
      using lt True by (simp add: unfold serial_data_ready_eq case_prod_beta inb_com1)
    ultimately show ?thesis by simp
  qed
qed

text \<open>
  Reading completely described: after \<open>d\<close> idle polls a byte arrives; it and every byte that
  is there without waiting again are stored in arrival order, up to the size of the buffer.
\<close>

lemma serial_getc_eq:
  assumes "rx_ready s (polls s + d)" and "\<And>j. j < d \<Longrightarrow> \<not> rx_ready s (polls s + j)"
  shows "serial_getc s = Ret (ucast (port_in s COM1 (received s))) (snd (inb COM1 (polled (Suc d) s)))"
proof -
  have "serial_wait s = Some (polled (Suc d) s)" using assms by (rule serial_wait_ready)
  then show ?thesis by (simp add: serial_getc_def inb_def)
qed

lemma serial_getc_spins: "serial_getc s = Stop Spinning s \<longleftrightarrow> (\<forall>d. \<not> rx_ready s (polls s + d))"
  unfolding serial_getc_def serial_wait_None [symmetric]
  by (auto split: option.splits prod.splits)

lemma serial_read_ready:
  assumes "len \<noteq> 0" and "rx_ready s (polls s + d)" and "\<And>j. j < d \<Longrightarrow> \<not> rx_ready s (polls s + j)"
  defines "m \<equiv> unat len - 1"
  defines "k \<equiv> burst (polled (Suc d) s) m"
  shows "serial_read buf len s =
     Ret (of_nat (Suc k)) (taken (Suc d + (if k = m then m else Suc k)) buf (incoming s (Suc k)) s)"
proof -
  let ?b = "port_in s COM1 (received s)"
  let ?t = "taken (Suc d) buf [?b] s"
  have c: "ucast (ucast ?b :: u32) = ?b" by (rule bit_word_eqI) (simp add: bit_simps)
  have one: "(1 :: u64) \<le> len" using assms(1) by (simp add: word_le_nat_alt unat_gt_0 Suc_le_eq)
  have k: "k = burst ?t m" by (simp add: k_def)
  have "m < 2 ^ 64" using unat_bound [of len] by (simp add: m_def)
  then have bound: "length [?b] + length (incoming ?t k) \<le> 2 ^ 64"
    using burst_le [of ?t m] by (simp add: k)
  have "serial_getc s = Ret (ucast ?b) (snd (inb COM1 (polled (Suc d) s)))"
    using assms(2,3) by (rule serial_getc_eq)
  then have "serial_read buf len s = (case serial_read_loop buf len 1 ?t of (n, s2) \<Rightarrow> Ret n s2)"
    using assms(1) by (simp add: serial_read_def c inb_com1 case_prod_beta)
  also have "serial_read_loop buf len 1 ?t =
      (1 + of_nat k, taken (if k = m then m else Suc k) (buf + of_nat (length [?b])) (incoming ?t k) ?t)"
    using serial_read_loop_eq [OF one _ k, of buf] by (simp add: m_def)
  also have "taken (if k = m then m else Suc k) (buf + of_nat (length [?b])) (incoming ?t k) ?t =
      taken (Suc d + (if k = m then m else Suc k)) buf ([?b] @ incoming ?t k) s"
    by (rule taken_taken [OF bound])
  also have "[?b] @ incoming ?t k = incoming s (Suc k)"
    by (simp add: incoming_Suc) (simp add: incoming_def)
  finally show ?thesis by simp
qed

lemma serial_read_spins:
  assumes "len \<noteq> 0" and "\<forall>d. \<not> rx_ready s (polls s + d)"
  shows "serial_read buf len s = Stop Spinning s"
  using assms serial_getc_spins [of s] by (simp add: serial_read_def)

section \<open>The line as the UART sees it\<close>

text \<open>
  An abstract 16550: the registers \<open>serial_init\<close> programs and the bytes handed to the
  transmitter.  While the divisor latch bit (bit 7 of LCR) is set, offsets 0 and 1 address the
  baud rate divisor instead of the data and interrupt registers.
\<close>

record uart =
  ier :: u8
  fcr :: u8
  lcr :: u8
  mcr :: u8
  dll :: u8
  dlm :: u8
  sent :: bytes

fun uart_step :: "io_event \<Rightarrow> uart \<Rightarrow> uart" where
  "uart_step (Outb p v) u =
     (if p = COM1 then (if bit (lcr u) 7 then u\<lparr>dll := v\<rparr> else u\<lparr>sent := sent u @ [v]\<rparr>)
      else if p = COM1 + 1 then (if bit (lcr u) 7 then u\<lparr>dlm := v\<rparr> else u\<lparr>ier := v\<rparr>)
      else if p = COM1 + 2 then u\<lparr>fcr := v\<rparr>
      else if p = COM1 + 3 then u\<lparr>lcr := v\<rparr>
      else if p = COM1 + 4 then u\<lparr>mcr := v\<rparr>
      else u)"
| "uart_step _ u = u"

lemma uart_sends:
  "\<not> bit (lcr u) 7 \<Longrightarrow> fold uart_step (map (Outb COM1) bs) u = u\<lparr>sent := sent u @ bs\<rparr>"
  by (induction bs arbitrary: u) auto

lemma serial_init_evs:
  "evs (serial_init s) = evs s @
     [Outb (COM1 + 1) 0, Outb (COM1 + 3) 0x80, Outb COM1 3, Outb (COM1 + 1) 0, Outb (COM1 + 3) 3,
      Outb (COM1 + 2) 0xC7, Outb (COM1 + 4) 0x0B]"
  by (simp add: serial_init_def Let_def outb_def)

lemma bit_0x80: "bit (0x80 :: u8) 7" "\<not> bit (3 :: u8) 7"
  by code_simp+

section \<open>Properties\<close>

text \<open>
  C6 (refinement).  Initialising the port and then printing a text programs the UART to divisor
  3 (38400 baud), 8 data bits, no parity, one stop bit, FIFOs on and UART interrupts off, and
  hands exactly the text with CR LF line ends to the transmitter.  The only condition is that the
  divisor latch is closed at boot, as it is after reset.
\<close>

theorem serial_line_refines_uart:
  assumes "evs s = []" and "\<not> bit (lcr u) 7"
  shows "fold uart_step (evs (serial_puts cs (serial_init s))) u =
     \<lparr>ier = 0, fcr = 0xC7, lcr = 3, mcr = 0x0B, dll = 3, dlm = 0, sent = sent u @ crlf cs\<rparr>"
proof -
  let ?u = "\<lparr>ier = 0, fcr = 0xC7, lcr = 3, mcr = 0x0B, dll = 3, dlm = 0, sent = sent u\<rparr>"
  have "fold uart_step (evs (serial_init s)) u = ?u"
    using assms by (simp add: serial_init_evs bit_0x80)
  then have "fold uart_step (evs (serial_puts cs (serial_init s))) u = fold uart_step (com1 cs) ?u"
    by (simp add: serial_puts_eq)
  then show ?thesis by (simp add: com1_def uart_sends bit_0x80)
qed

theorem serial_line_refines_uart_witness:
  "fold uart_step (evs (serial_puts (ascii ''ok'' @ [10]) (serial_init blank_hw)))
      \<lparr>ier = 1, fcr = 0, lcr = 0, mcr = 0, dll = 12, dlm = 1, sent = []\<rparr> =
     \<lparr>ier = 0, fcr = 0xC7, lcr = 3, mcr = 0x0B, dll = 3, dlm = 0, sent = [111, 107, 13, 10]\<rparr>"
  by (subst serial_line_refines_uart) (simp_all add: blank_hw_def)

text \<open>
  (functional)  \<open>serial_write\<close> sends the bytes of the buffer, each LF as CR LF, and
  changes nothing else; the text can be recovered from what was sent.
\<close>

theorem serial_write_output:
  "serial_write buf len s =
     s\<lparr>evs := evs s @ map (Outb COM1) (crlf (mem_bytes (mem s) buf (unat len)))\<rparr>
   \<and> uncrlf (crlf (mem_bytes (mem s) buf (unat len))) = mem_bytes (mem s) buf (unat len)"
  by (simp add: serial_write_eq com1_def uncrlf_crlf)

text \<open>
  C21 (liveness).  Once the line becomes ready, \<open>serial_read\<close> returns between 1 and
  \<open>len\<close> bytes: the next received bytes, in order, none lost and none invented, stored at the
  start of the buffer; nothing outside those bytes is written.
\<close>

theorem serial_read_delivers:
  assumes "len \<noteq> 0" and "rx_ready s (polls s + d)"
    and "\<And>j. j < d \<Longrightarrow> \<not> rx_ready s (polls s + j)"
  shows "\<exists>n t. serial_read buf len s = Ret (of_nat n) t \<and> 1 \<le> n \<and> n \<le> unat len
     \<and> mem_bytes (mem t) buf n = incoming s n \<and> received t = received s + n
     \<and> (\<forall>a. in_region buf n a \<or> mem t a = mem s a) \<and> evs t = evs s"
proof -
  let ?k = "burst (polled (Suc d) s) (unat len - 1)"
  have "0 < unat len" using assms(1) by (simp add: unat_gt_0)
  then have k: "Suc ?k \<le> unat len"
    using burst_le [of "polled (Suc d) s" "unat len - 1"] by linarith
  then have "length (incoming s (Suc ?k)) < 2 ^ 64" using unat_bound [of len] by simp
  note bytes = mem_bytes_put [OF this, of "mem s" buf]
  show ?thesis
    by (rule exI [of _ "Suc ?k"], rule exI, intro conjI, rule serial_read_ready [OF assms])
       (use k bytes in \<open>auto simp: mem_put_def in_region_def\<close>)
qed

definition typing_line :: hw where
  "typing_line = blank_hw\<lparr>port_in := (\<lambda>p k. if p = LSR then (if k = 2 \<or> k = 3 then 1 else 0) else of_nat (65 + k))\<rparr>"

theorem serial_read_delivers_witness:
  "\<exists>n t. serial_read 0x1000 8 typing_line = Ret (of_nat n) t \<and> 1 \<le> n \<and> n \<le> 8
     \<and> mem_bytes (mem t) 0x1000 n = incoming typing_line n \<and> received t = received typing_line + n
     \<and> (\<forall>a. in_region 0x1000 n a \<or> mem t a = mem typing_line a) \<and> evs t = evs typing_line"
  using serial_read_delivers [where len = 8 and s = typing_line and d = 2 and buf = "0x1000"]
  by (simp add: typing_line_def blank_hw_def rx_ready_def)

text \<open>
  (liveness)  Waiting for a byte returns exactly when the line becomes ready at some poll;
  otherwise the processor polls for ever.
\<close>

theorem serial_getc_blocks:
  "serial_getc s = Stop Spinning s \<longleftrightarrow> (\<forall>d. \<not> rx_ready s (polls s + d))"
  by (rule serial_getc_spins)

end
