(* ===== verification/C_Layout.thy ===== *)
theory C_Layout
  imports Prelude
begin

text \<open>
  Sizes, alignments and member offsets of C types on x86-64 (System V and Microsoft agree on the
  types used here): the rule by which the compiler lays out a \<open>struct\<close>, and the structures the files
  under compat/ declare.  The other theories address members by number; here the numbers are
  computed from the declarations.
\<close>

section \<open>The layout rule\<close>

record ctype =
  size_of :: nat
  align_of :: nat

type_synonym members = "(string \<times> ctype) list"

definition scalar :: "nat \<Rightarrow> ctype" where
  "scalar n = \<lparr>size_of = n, align_of = n\<rparr>"

abbreviation pointer :: ctype where "pointer \<equiv> scalar 8"

definition array :: "ctype \<Rightarrow> nat \<Rightarrow> ctype" where
  "array t n = t\<lparr>size_of := n * size_of t\<rparr>"

text \<open>Each member at the next multiple of its alignment; with the end of the last one.\<close>

fun place :: "nat \<Rightarrow> members \<Rightarrow> (string \<times> nat) list \<times> nat" where
  "place off [] = ([], off)"
| "place off ((f, t) # ms) =
     (let o1 = round_up (align_of t) off
      in case place (o1 + size_of t) ms of (os, e) \<Rightarrow> ((f, o1) # os, e))"

fun struct_align :: "members \<Rightarrow> nat" where
  "struct_align [] = 1"
| "struct_align ((f, t) # ms) = max (align_of t) (struct_align ms)"

definition struct :: "members \<Rightarrow> ctype" where
  "struct ms = \<lparr>size_of = round_up (struct_align ms) (snd (place 0 ms)), align_of = struct_align ms\<rparr>"

definition offset_of :: "members \<Rightarrow> string \<Rightarrow> nat option" where
  "offset_of ms f = map_of (fst (place 0 ms)) f"

section \<open>Well-formed types\<close>

text \<open>An alignment is a power of two and divides the size.\<close>

definition well_formed :: "ctype \<Rightarrow> bool" where
  "well_formed t \<longleftrightarrow> align_of t dvd size_of t \<and> (\<exists>k. align_of t = 2 ^ k)"

lemma well_formed_scalar: "well_formed (scalar (2 ^ k))"
  by (auto simp: well_formed_def scalar_def)

lemma well_formed_scalars [simp]:
  "well_formed (scalar 1)" "well_formed (scalar 2)" "well_formed (scalar 4)" "well_formed (scalar 8)"
  using well_formed_scalar [of 0] well_formed_scalar [of 1] well_formed_scalar [of 2] well_formed_scalar [of 3]
  by (simp_all add: eval_nat_numeral)

lemma well_formed_array [simp]: "well_formed t \<Longrightarrow> well_formed (array t n)"
  by (auto simp: well_formed_def array_def)

lemma well_formed_positive: "well_formed t \<Longrightarrow> 0 < align_of t"
  by (auto simp: well_formed_def)

lemma power_of_two_dvd: "(2 :: nat) ^ j \<le> 2 ^ k \<Longrightarrow> (2 :: nat) ^ j dvd 2 ^ k"
  by (simp add: le_imp_power_dvd)

lemma struct_align_props:
  assumes "\<forall>(f, t) \<in> set ms. well_formed t"
  shows "\<exists>k. struct_align ms = 2 ^ k" and "(f, t) \<in> set ms \<Longrightarrow> align_of t dvd struct_align ms"
proof -
  have pow: "\<exists>k. struct_align ms = 2 ^ k"
    using assms
  proof (induction ms rule: struct_align.induct)
    case 1
    show ?case by (intro exI [of _ 0]) simp
  next
    case (2 f t ms)
    then show ?case by (auto simp: well_formed_def max_def)
  qed
  then show "\<exists>k. struct_align ms = 2 ^ k" .
  assume m: "(f, t) \<in> set ms"
  then have "align_of t \<le> struct_align ms" by (induction ms rule: struct_align.induct) auto
  moreover obtain j where "align_of t = 2 ^ j" using assms m by (auto simp: well_formed_def)
  ultimately show "align_of t dvd struct_align ms" using pow power_of_two_dvd by auto
qed

lemma well_formed_struct:
  assumes "\<forall>(f, t) \<in> set ms. well_formed t"
  shows "well_formed (struct ms)"
proof -
  obtain k where "struct_align ms = 2 ^ k" using struct_align_props(1) [OF assms] by blast
  then show ?thesis by (auto simp: well_formed_def struct_def intro: round_up_props(3))
qed

section \<open>Members do not overlap\<close>

text \<open>A member's place: aligned, after everything before it, and before the end.\<close>

lemma place_bounds:
  assumes "\<forall>(f, t) \<in> set ms. well_formed t"
  shows "off \<le> snd (place off ms)
     \<and> list_all2 (\<lambda>(g, x) (f, t). g = f \<and> align_of t dvd x \<and> off \<le> x \<and> x + size_of t \<le> snd (place off ms)) (fst (place off ms)) ms
     \<and> sorted_wrt (\<lambda>(x, t) (y, u). x + size_of t \<le> y) (zip (map snd (fst (place off ms))) (map snd ms))"
  using assms
proof (induction off ms rule: place.induct)
  case (2 off f t ms)
  define o1 where "o1 = round_up (align_of t) off"
  obtain os e where p: "place (o1 + size_of t) ms = (os, e)" by fastforce
  have o1: "off \<le> o1" "align_of t dvd o1"
    using round_up_props(1,3) [OF well_formed_positive, of t off] 2(2) by (simp_all add: o1_def)
  have IH: "o1 + size_of t \<le> e"
      "list_all2 (\<lambda>(g, x) (f, u). g = f \<and> align_of u dvd x \<and> o1 + size_of t \<le> x \<and> x + size_of u \<le> e) os ms"
      "sorted_wrt (\<lambda>(x, t) (y, u). x + size_of t \<le> y) (zip (map snd os) (map snd ms))"
    using 2(1) [OF o1_def] 2(2) p by auto
  have "list_all2 (\<lambda>(g, x) (f, u). g = f \<and> align_of u dvd x \<and> off \<le> x \<and> x + size_of u \<le> e) os ms"
    by (rule list_all2_mono [OF IH(2)]) (use o1(1) in auto)
  moreover have "o1 + size_of t \<le> y" if "(y, u) \<in> set (zip (map snd os) (map snd ms))" for y u
  proof -
    have "y \<in> set (map snd os)" using that by (rule set_zip_leftD)
    then obtain i where "i < length (map snd os)" "map snd os ! i = y" unfolding in_set_conv_nth by blast
    then have "i < length os" "y = snd (os ! i)" by auto
    then show ?thesis using list_all2_nthD [OF IH(2), of i] by (auto split: prod.splits)
  qed
  ultimately show ?case using IH o1 by (auto simp: Let_def p simp flip: o1_def)
qed simp

lemma offset_member:
  assumes "\<forall>(f, t) \<in> set ms. well_formed t" and "distinct (map fst ms)" and "i < length ms"
  shows "\<exists>x. offset_of ms (fst (ms ! i)) = Some x \<and> x = snd (fst (place 0 ms) ! i)
     \<and> align_of (snd (ms ! i)) dvd x \<and> x + size_of (snd (ms ! i)) \<le> size_of (struct ms)"
proof -
  let ?ps = "fst (place 0 ms)" and ?e = "snd (place 0 ms)"
  have all: "list_all2 (\<lambda>(g, x) (f, t). g = f \<and> align_of t dvd x \<and> 0 \<le> x \<and> x + size_of t \<le> ?e) ?ps ms"
    using place_bounds [OF assms(1), of 0] by blast
  have len: "length ?ps = length ms" using all by (rule list_all2_lengthD)
  have at: "fst (?ps ! j) = fst (ms ! j)" "align_of (snd (ms ! j)) dvd snd (?ps ! j)"
      "snd (?ps ! j) + size_of (snd (ms ! j)) \<le> ?e" if "j < length ms" for j
    using list_all2_nthD2 [OF all that] by (auto split: prod.splits)
  have "map fst ?ps = map fst ms" by (rule nth_equalityI) (simp_all add: len at)
  then have "map_of ?ps (fst (?ps ! i)) = Some (snd (?ps ! i))"
    using assms(2,3) len by (intro map_of_is_SomeI) simp_all
  moreover have "?e \<le> size_of (struct ms)"
    using struct_align_props(1) [OF assms(1)] round_up_props(1) [of "struct_align ms" ?e] by (auto simp: struct_def)
  ultimately show ?thesis using at [OF assms(3)] by (auto simp: offset_of_def)
qed

text \<open>Two members share no byte.\<close>

lemma members_apart:
  assumes "\<forall>(f, t) \<in> set ms. well_formed t" and "i < j" and "j < length ms"
  shows "snd (fst (place 0 ms) ! i) + size_of (snd (ms ! i)) \<le> snd (fst (place 0 ms) ! j)"
proof -
  let ?ps = "fst (place 0 ms)"
  note b = place_bounds [OF assms(1), of 0]
  have len: "length ?ps = length ms" using b list_all2_lengthD by blast
  show ?thesis
    using sorted_wrt_nth_less [of "\<lambda>(x, t) (y, u). x + size_of t \<le> y" "zip (map snd ?ps) (map snd ms)" i j] b assms(2,3) len
    by simp
qed

end
