(* ===== verification/Efi_Types.thy ===== *)
theory Efi_Types
  imports C_Layout
begin

text \<open>
  boot/uefi/efi.h: the types through which the shim and the console driver reach the firmware.  The
  calls themselves are events of the machine; here the declarations are laid out, because a member
  at another offset than the firmware's makes every such call a jump to some other service.
\<close>

section \<open>Scalars\<close>

definition UINTN :: ctype where "UINTN = scalar 8"
definition INTN :: ctype where "INTN = scalar 8"
definition UINT8 :: ctype where "UINT8 = scalar 1"
definition UINT16 :: ctype where "UINT16 = scalar 2"
definition UINT32 :: ctype where "UINT32 = scalar 4"
definition UINT64 :: ctype where "UINT64 = scalar 8"
definition INT32 :: ctype where "INT32 = scalar 4"
definition CHAR16 :: ctype where "CHAR16 = scalar 2"
definition BOOLEAN :: ctype where "BOOLEAN = scalar 1"

definition EFI_STATUS :: ctype where "EFI_STATUS = UINTN"
definition EFI_HANDLE :: ctype where "EFI_HANDLE = pointer"
definition EFI_EVENT :: ctype where "EFI_EVENT = pointer"

lemmas efi_scalars = UINTN_def INTN_def UINT8_def UINT16_def UINT32_def UINT64_def INT32_def CHAR16_def
  BOOLEAN_def EFI_STATUS_def EFI_HANDLE_def EFI_EVENT_def

section \<open>Status codes\<close>

definition EFI_SUCCESS :: u64 where "EFI_SUCCESS = 0"
definition EFI_ERROR_BIT :: u64 where "EFI_ERROR_BIT = push_bit 63 1"
definition EFI_LOAD_ERROR :: u64 where "EFI_LOAD_ERROR = EFI_ERROR_BIT OR 1"
definition EFI_INVALID_PARAMETER :: u64 where "EFI_INVALID_PARAMETER = EFI_ERROR_BIT OR 2"
definition EFI_UNSUPPORTED :: u64 where "EFI_UNSUPPORTED = EFI_ERROR_BIT OR 3"
definition EFI_NOT_READY :: u64 where "EFI_NOT_READY = EFI_ERROR_BIT OR 6"
definition EFI_OUT_OF_RESOURCES :: u64 where "EFI_OUT_OF_RESOURCES = EFI_ERROR_BIT OR 9"
definition EFI_NOT_FOUND :: u64 where "EFI_NOT_FOUND = EFI_ERROR_BIT OR 14"

lemmas efi_status = EFI_ERROR_BIT_def EFI_LOAD_ERROR_def EFI_INVALID_PARAMETER_def EFI_UNSUPPORTED_def
  EFI_NOT_READY_def EFI_OUT_OF_RESOURCES_def EFI_NOT_FOUND_def

lemma EFI_SUCCESS_value [simp]: "EFI_SUCCESS = 0"
  by (simp add: EFI_SUCCESS_def)

lemma EFI_NOT_READY_value [simp]: "EFI_NOT_READY = 0x8000000000000006"
  by (simp add: efi_status)

section \<open>Enumerations\<close>

datatype EFI_ALLOCATE_TYPE = AllocateAnyPages | AllocateMaxAddress | AllocateAddress | MaxAllocateType

datatype EFI_MEMORY_TYPE =
    EfiReservedMemoryType | EfiLoaderCode | EfiLoaderData | EfiBootServicesCode | EfiBootServicesData
  | EfiRuntimeServicesCode | EfiRuntimeServicesData | EfiConventionalMemory | EfiUnusableMemory
  | EfiACPIReclaimMemory | EfiACPIMemoryNVS | EfiMemoryMappedIO | EfiMemoryMappedIOPortSpace
  | EfiPalCode | EfiMaxMemoryType

text \<open>C numbers the enumerators in the order of their declaration.\<close>

instantiation EFI_ALLOCATE_TYPE :: enum
begin

definition enum_EFI_ALLOCATE_TYPE :: "EFI_ALLOCATE_TYPE list" where
  "enum_EFI_ALLOCATE_TYPE = [AllocateAnyPages, AllocateMaxAddress, AllocateAddress, MaxAllocateType]"

definition enum_all_EFI_ALLOCATE_TYPE :: "(EFI_ALLOCATE_TYPE \<Rightarrow> bool) \<Rightarrow> bool" where
  "enum_all_EFI_ALLOCATE_TYPE P \<longleftrightarrow> list_all P enum_class.enum"

definition enum_ex_EFI_ALLOCATE_TYPE :: "(EFI_ALLOCATE_TYPE \<Rightarrow> bool) \<Rightarrow> bool" where
  "enum_ex_EFI_ALLOCATE_TYPE P \<longleftrightarrow> list_ex P enum_class.enum"

instance
proof
  show U: "UNIV = set (enum_class.enum :: EFI_ALLOCATE_TYPE list)"
    unfolding enum_EFI_ALLOCATE_TYPE_def using EFI_ALLOCATE_TYPE.exhaust by auto
  show "distinct (enum_class.enum :: EFI_ALLOCATE_TYPE list)" by (simp add: enum_EFI_ALLOCATE_TYPE_def)
  show "enum_class.enum_all P = Ball UNIV P" for P :: "EFI_ALLOCATE_TYPE \<Rightarrow> bool"
    unfolding U enum_all_EFI_ALLOCATE_TYPE_def list_all_iff ..
  show "enum_class.enum_ex P = Bex UNIV P" for P :: "EFI_ALLOCATE_TYPE \<Rightarrow> bool"
    unfolding U enum_ex_EFI_ALLOCATE_TYPE_def list_ex_iff ..
qed

end

instantiation EFI_MEMORY_TYPE :: enum
begin

definition enum_EFI_MEMORY_TYPE :: "EFI_MEMORY_TYPE list" where
  "enum_EFI_MEMORY_TYPE =
     [EfiReservedMemoryType, EfiLoaderCode, EfiLoaderData, EfiBootServicesCode, EfiBootServicesData,
      EfiRuntimeServicesCode, EfiRuntimeServicesData, EfiConventionalMemory, EfiUnusableMemory,
      EfiACPIReclaimMemory, EfiACPIMemoryNVS, EfiMemoryMappedIO, EfiMemoryMappedIOPortSpace, EfiPalCode,
      EfiMaxMemoryType]"

definition enum_all_EFI_MEMORY_TYPE :: "(EFI_MEMORY_TYPE \<Rightarrow> bool) \<Rightarrow> bool" where
  "enum_all_EFI_MEMORY_TYPE P \<longleftrightarrow> list_all P enum_class.enum"

definition enum_ex_EFI_MEMORY_TYPE :: "(EFI_MEMORY_TYPE \<Rightarrow> bool) \<Rightarrow> bool" where
  "enum_ex_EFI_MEMORY_TYPE P \<longleftrightarrow> list_ex P enum_class.enum"

instance
proof
  show U: "UNIV = set (enum_class.enum :: EFI_MEMORY_TYPE list)"
    unfolding enum_EFI_MEMORY_TYPE_def using EFI_MEMORY_TYPE.exhaust by auto
  show "distinct (enum_class.enum :: EFI_MEMORY_TYPE list)" by (simp add: enum_EFI_MEMORY_TYPE_def)
  show "enum_class.enum_all P = Ball UNIV P" for P :: "EFI_MEMORY_TYPE \<Rightarrow> bool"
    unfolding U enum_all_EFI_MEMORY_TYPE_def list_all_iff ..
  show "enum_class.enum_ex P = Bex UNIV P" for P :: "EFI_MEMORY_TYPE \<Rightarrow> bool"
    unfolding U enum_ex_EFI_MEMORY_TYPE_def list_ex_iff ..
qed

end

definition enum_value :: "'a::enum \<Rightarrow> nat" where
  "enum_value x = length (takeWhile (\<lambda>y. y \<noteq> x) enum_class.enum)"

section \<open>Structures\<close>

definition EFI_GUID :: members where
  "EFI_GUID = [(''Data1'', UINT32), (''Data2'', UINT16), (''Data3'', UINT16), (''Data4'', array UINT8 8)]"

definition EFI_INPUT_KEY :: members where
  "EFI_INPUT_KEY = [(''ScanCode'', UINT16), (''UnicodeChar'', CHAR16)]"

text \<open>A pointer to a function of the firmware's calling convention.\<close>

definition EFI_INPUT_READ_KEY :: ctype where "EFI_INPUT_READ_KEY = pointer"
definition EFI_INPUT_RESET :: ctype where "EFI_INPUT_RESET = pointer"
definition EFI_TEXT_STRING :: ctype where "EFI_TEXT_STRING = pointer"
definition EFI_TEXT_RESET :: ctype where "EFI_TEXT_RESET = pointer"
definition EFI_TEXT_CLEAR_SCREEN :: ctype where "EFI_TEXT_CLEAR_SCREEN = pointer"
definition EFI_TEXT_SET_CURSOR_POSITION :: ctype where "EFI_TEXT_SET_CURSOR_POSITION = pointer"
definition EFI_TEXT_SET_ATTRIBUTE :: ctype where "EFI_TEXT_SET_ATTRIBUTE = pointer"
definition EFI_TEXT_QUERY_MODE :: ctype where "EFI_TEXT_QUERY_MODE = pointer"
definition EFI_ALLOCATE_PAGES :: ctype where "EFI_ALLOCATE_PAGES = pointer"

lemmas efi_calls = EFI_INPUT_READ_KEY_def EFI_INPUT_RESET_def EFI_TEXT_STRING_def EFI_TEXT_RESET_def
  EFI_TEXT_CLEAR_SCREEN_def EFI_TEXT_SET_CURSOR_POSITION_def EFI_TEXT_SET_ATTRIBUTE_def
  EFI_TEXT_QUERY_MODE_def EFI_ALLOCATE_PAGES_def

definition EFI_SIMPLE_TEXT_INPUT_PROTOCOL :: members where
  "EFI_SIMPLE_TEXT_INPUT_PROTOCOL =
     [(''Reset'', EFI_INPUT_RESET), (''ReadKeyStroke'', EFI_INPUT_READ_KEY), (''WaitForKey'', EFI_EVENT)]"

definition EFI_SIMPLE_TEXT_OUTPUT_MODE :: members where
  "EFI_SIMPLE_TEXT_OUTPUT_MODE =
     [(''MaxMode'', INT32), (''Mode'', INT32), (''Attribute'', INT32), (''CursorColumn'', INT32),
      (''CursorRow'', INT32), (''CursorVisible'', BOOLEAN)]"

definition EFI_SIMPLE_TEXT_OUTPUT_PROTOCOL :: members where
  "EFI_SIMPLE_TEXT_OUTPUT_PROTOCOL =
     [(''Reset'', EFI_TEXT_RESET), (''OutputString'', EFI_TEXT_STRING), (''TestString'', pointer),
      (''QueryMode'', EFI_TEXT_QUERY_MODE), (''SetMode'', pointer), (''SetAttribute'', EFI_TEXT_SET_ATTRIBUTE),
      (''ClearScreen'', EFI_TEXT_CLEAR_SCREEN), (''SetCursorPosition'', EFI_TEXT_SET_CURSOR_POSITION),
      (''EnableCursor'', pointer), (''Mode'', pointer)]"

definition EFI_TABLE_HEADER :: members where
  "EFI_TABLE_HEADER =
     [(''Signature'', UINT64), (''Revision'', UINT32), (''HeaderSize'', UINT32), (''CRC32'', UINT32),
      (''Reserved'', UINT32)]"

definition EFI_BOOT_SERVICES :: members where
  "EFI_BOOT_SERVICES =
     [(''Hdr'', struct EFI_TABLE_HEADER), (''RaiseTPL'', pointer), (''RestoreTPL'', pointer),
      (''AllocatePages'', EFI_ALLOCATE_PAGES)]"

definition EFI_SYSTEM_TABLE :: members where
  "EFI_SYSTEM_TABLE =
     [(''Hdr'', struct EFI_TABLE_HEADER), (''FirmwareVendor'', pointer), (''FirmwareRevision'', UINT32),
      (''ConsoleInHandle'', EFI_HANDLE), (''ConIn'', pointer), (''ConsoleOutHandle'', EFI_HANDLE),
      (''ConOut'', pointer), (''StandardErrorHandle'', EFI_HANDLE), (''StdErr'', pointer),
      (''RuntimeServices'', pointer), (''BootServices'', pointer)]"

lemmas efi_structs = EFI_GUID_def EFI_INPUT_KEY_def EFI_SIMPLE_TEXT_INPUT_PROTOCOL_def
  EFI_SIMPLE_TEXT_OUTPUT_MODE_def EFI_SIMPLE_TEXT_OUTPUT_PROTOCOL_def EFI_TABLE_HEADER_def
  EFI_BOOT_SERVICES_def EFI_SYSTEM_TABLE_def

section \<open>Properties\<close>

lemma system_table_offsets:
  "map (offset_of EFI_SYSTEM_TABLE) [''ConIn'', ''ConOut'', ''BootServices''] = [Some 48, Some 64, Some 96]"
  by code_simp

lemma protocol_offsets:
  "map (offset_of EFI_SIMPLE_TEXT_OUTPUT_PROTOCOL) [''OutputString'', ''SetAttribute'', ''ClearScreen'', ''SetCursorPosition'', ''Mode'']
     = [Some 8, Some 40, Some 48, Some 56, Some 72]"
  "offset_of EFI_SIMPLE_TEXT_INPUT_PROTOCOL ''ReadKeyStroke'' = Some 8"
  "offset_of EFI_SIMPLE_TEXT_OUTPUT_MODE ''Attribute'' = Some 8"
  "offset_of EFI_BOOT_SERVICES ''AllocatePages'' = Some 40" "offset_of EFI_INPUT_KEY ''UnicodeChar'' = Some 2"
  by code_simp+

lemma efi_sizes:
  "size_of (struct EFI_INPUT_KEY) = 4" "size_of (struct EFI_GUID) = 16" "size_of (struct EFI_SIMPLE_TEXT_OUTPUT_MODE) = 24"
  by code_simp+

lemma efi_enumerators:
  "enum_value AllocateAnyPages = 0" "enum_value AllocateAddress = 2" "enum_value EfiLoaderData = 2"
  by (simp_all add: enum_value_def enum_EFI_ALLOCATE_TYPE_def enum_EFI_MEMORY_TYPE_def)

lemma efi_errors: "e \<in> {1, 2, 3, 6, 9, 14} \<Longrightarrow> bit (EFI_ERROR_BIT OR e) 63 \<and> EFI_ERROR_BIT OR e \<noteq> 0"
  by (auto simp: EFI_ERROR_BIT_def)

text \<open>
  A summary for the reader who wants to compare the declarations with the firmware: they give every member that the shim and the console driver use the offset the
  UEFI specification gives it, and the enumerators they pass the specification's values; all error
  statuses have the top bit set and none is \<open>EFI_SUCCESS\<close>.
\<close>

lemma efi_layout:
  "offset_of EFI_SYSTEM_TABLE ''ConIn'' = Some 48 \<and> offset_of EFI_SYSTEM_TABLE ''ConOut'' = Some 64
   \<and> offset_of EFI_SYSTEM_TABLE ''BootServices'' = Some 96
   \<and> offset_of EFI_BOOT_SERVICES ''AllocatePages'' = Some 40
   \<and> offset_of EFI_SIMPLE_TEXT_INPUT_PROTOCOL ''ReadKeyStroke'' = Some 8
   \<and> offset_of EFI_SIMPLE_TEXT_OUTPUT_PROTOCOL ''OutputString'' = Some 8
   \<and> offset_of EFI_SIMPLE_TEXT_OUTPUT_PROTOCOL ''SetAttribute'' = Some 40
   \<and> offset_of EFI_SIMPLE_TEXT_OUTPUT_PROTOCOL ''ClearScreen'' = Some 48
   \<and> offset_of EFI_SIMPLE_TEXT_OUTPUT_PROTOCOL ''SetCursorPosition'' = Some 56
   \<and> offset_of EFI_SIMPLE_TEXT_OUTPUT_PROTOCOL ''Mode'' = Some 72
   \<and> offset_of EFI_SIMPLE_TEXT_OUTPUT_MODE ''Attribute'' = Some 8
   \<and> offset_of EFI_INPUT_KEY ''UnicodeChar'' = Some 2 \<and> size_of (struct EFI_INPUT_KEY) = 4
   \<and> size_of (struct EFI_GUID) = 16 \<and> size_of (struct EFI_SIMPLE_TEXT_OUTPUT_MODE) = 24
   \<and> enum_value AllocateAnyPages = 0 \<and> enum_value AllocateAddress = 2 \<and> enum_value EfiLoaderData = 2
   \<and> list_all (\<lambda>e. bit e 63 \<and> e \<noteq> EFI_SUCCESS)
        [EFI_LOAD_ERROR, EFI_INVALID_PARAMETER, EFI_UNSUPPORTED, EFI_NOT_READY, EFI_OUT_OF_RESOURCES, EFI_NOT_FOUND]"
  using system_table_offsets protocol_offsets efi_sizes efi_enumerators
  by (simp add: efi_errors efi_status del: EFI_NOT_READY_value)

end
