(* ===== verification/Uefi_Console.thy ===== *)
theory Uefi_Console
  imports Machine Efi_Types
begin

text \<open>
  The UEFI text console, kernel/uefi\_console.c: an ANSI escape parser that turns terminal
  output into calls of the firmware's text protocol, and keyboard input through
  \<open>ReadKeyStroke\<close>.  The firmware (types of boot/uefi/efi.h) is outside the repository: what
  it answers (key strokes, the current attribute) are arbitrary streams, and the calls made to
  it are logged.  C \<open>int\<close> variables are integers whose overflow, which the C standard leaves
  undefined, stops the model with \<open>Undefined\<close>; so does reading \<open>csi_params\<close> out of bounds.
\<close>

section \<open>State\<close>

abbreviation (input) INT_MAX :: int where "INT_MAX \<equiv> 2147483647"

record efi_input_key =
  ScanCode :: u16
  UnicodeChar :: u16

datatype ansi_mode = ST_NORMAL | ST_ESC | ST_CSI

record uefi = hw +
  \<comment> \<open>the firmware: which pointers of the system table are not NULL, and its answers\<close>
  sys_table :: bool
  con_out :: bool
  con_in :: bool
  attr_in :: "nat \<Rightarrow> u32 option"      \<comment> \<open>k-th look at \<open>Mode->Attribute\<close>; \<open>None\<close>: \<open>Mode\<close> is NULL\<close>
  attr_pos :: nat
  key_in :: "nat \<Rightarrow> u64 \<times> efi_input_key option"   \<comment> \<open>k-th \<open>ReadKeyStroke\<close>: status, key written\<close>
  key_pos :: nat
  \<comment> \<open>the static variables of uefi\_console.c\<close>
  pending_key :: efi_input_key
  pending_key_valid :: bool
  ansi_state :: ansi_mode
  csi_params :: "int list"
  csi_n :: nat
  csi_cur :: int
  csi_seen_digit :: bool

definition has_con_out :: "'a uefi_scheme \<Rightarrow> bool" where
  "has_con_out s \<longleftrightarrow> sys_table s \<and> con_out s"

definition has_con_in :: "'a uefi_scheme \<Rightarrow> bool" where
  "has_con_in s \<longleftrightarrow> sys_table s \<and> con_in s"

section \<open>The ANSI escape parser\<close>

definition ansi_reset :: "'a uefi_scheme \<Rightarrow> 'a uefi_scheme" where
  "ansi_reset s =
     s\<lparr>ansi_state := ST_NORMAL, csi_n := 0, csi_cur := 0, csi_seen_digit := False,
       csi_params := replicate 8 0\<rparr>"

definition ansi_push_param :: "'a uefi_scheme \<Rightarrow> (unit, 'a uefi_scheme) outcome" where
  "ansi_push_param s =
     (let s1 = (if csi_n s < 8
                then s\<lparr>csi_params := (csi_params s)[csi_n s := (if csi_seen_digit s then csi_cur s else -1)]\<rparr>
                else s)
      in if int (csi_n s) = INT_MAX then Stop Undefined s1
         else Ret () (s1\<lparr>csi_n := csi_n s + 1, csi_cur := 0, csi_seen_digit := False\<rparr>))"

text \<open>One round of the loop over the SGR parameters: the new attribute.\<close>

definition sgr_attr :: "int \<Rightarrow> u64 \<Rightarrow> u64" where
  "sgr_attr v attr =
     (let p = (if v < 0 then 0 else v)
      in if p = 0 then 0x07
         else if 30 \<le> p \<and> p \<le> 37 then (attr AND 0xF0) OR of_int (p - 30)
         else if 90 \<le> p \<and> p \<le> 97 then (attr AND 0xF0) OR of_int (p - 90 + 8)
         else if 40 \<le> p \<and> p \<le> 47 then (attr AND 0x0F) OR push_bit 4 (of_int (p - 40))
         else if 100 \<le> p \<and> p \<le> 107 then (attr AND 0x0F) OR push_bit 4 (of_int (p - 100 + 8))
         else attr)"

primrec sgr_loop :: "nat list \<Rightarrow> u64 \<Rightarrow> 'a uefi_scheme \<Rightarrow> (u64, 'a uefi_scheme) outcome" where
  "sgr_loop [] attr s = Ret attr s"
| "sgr_loop (i # is) attr s =
     (if i < 8 then sgr_loop is (sgr_attr (csi_params s ! i) attr) s else Stop Undefined s)"

definition ansi_exec :: "u8 \<Rightarrow> 'a uefi_scheme \<Rightarrow> (unit, 'a uefi_scheme) outcome" where
  "ansi_exec final s0 =
     andThen (ansi_push_param s0) (\<lambda>_ s.
       if \<not> has_con_out s then Ret () s
       else if final = 72 \<or> final = 102 then   \<comment> \<open>H, f\<close>
         (let row = (if csi_n s \<ge> 1 \<and> csi_params s ! 0 > 0 then csi_params s ! 0 else 1);
              col = (if csi_n s \<ge> 2 \<and> csi_params s ! 1 > 0 then csi_params s ! 1 else 1)
          in Ret () (emit (SetCursorPosition (of_int (col - 1)) (of_int (row - 1))) s))
       else if final = 74 then   \<comment> \<open>J\<close>
         (let n = (if csi_n s \<ge> 1 \<and> csi_params s ! 0 \<ge> 0 then csi_params s ! 0 else 0)
          in Ret () (if n = 2 then emit ClearScreen s else s))
       else if final = 109 then   \<comment> \<open>m\<close>
         (let attr = (case attr_in s (attr_pos s) of Some a \<Rightarrow> scast a | None \<Rightarrow> 0x07);
              s1 = s\<lparr>attr_pos := Suc (attr_pos s)\<rparr>
          in andThen (sgr_loop [0..<csi_n s] attr s1) (\<lambda>attr s. Ret () (emit (SetAttribute attr) s)))
       else Ret () s)"

definition raw_putc :: "u8 \<Rightarrow> 'a uefi_scheme \<Rightarrow> 'a uefi_scheme" where
  "raw_putc c s =
     (if \<not> has_con_out s then s
      else if c = 10 then emit (OutputString [13, 10]) s
      else emit (OutputString (if c = 0 then [] else [ucast c])) s)"

definition parse_byte :: "u8 \<Rightarrow> 'a uefi_scheme \<Rightarrow> (unit, 'a uefi_scheme) outcome" where
  "parse_byte c s =
     (case ansi_state s of
        ST_NORMAL \<Rightarrow>
          if c = 0x1B then Ret () (s\<lparr>ansi_state := ST_ESC\<rparr>) else Ret () (raw_putc c s)
      | ST_ESC \<Rightarrow>
          if c = 91 then Ret () ((ansi_reset s)\<lparr>ansi_state := ST_CSI\<rparr>)
          else Ret () (s\<lparr>ansi_state := ST_NORMAL\<rparr>)
      | ST_CSI \<Rightarrow>
          if 48 \<le> c \<and> c \<le> 57 then
            (let v = csi_cur s * 10 + (uint c - 48)
             in if csi_cur s * 10 > INT_MAX \<or> v > INT_MAX then Stop Undefined s
                else Ret () (s\<lparr>csi_cur := v, csi_seen_digit := True\<rparr>))
          else if c = 59 then ansi_push_param s
          else if c = 63 \<or> c = 62 \<or> c = 61 \<or> c = 32 then Ret () s
          else if 0x40 \<le> c \<and> c \<le> 0x7E then
            andThen (ansi_exec c s) (\<lambda>_ s. Ret () (s\<lparr>ansi_state := ST_NORMAL\<rparr>))
          else Ret () (s\<lparr>ansi_state := ST_NORMAL\<rparr>))"

section \<open>The public console functions\<close>

definition uefi_console_init :: "'a uefi_scheme \<Rightarrow> 'a uefi_scheme" where
  "uefi_console_init s = (if \<not> has_con_out s then s else ansi_reset (emit ClearScreen s))"

definition uefi_console_putc :: "u8 \<Rightarrow> 'a uefi_scheme \<Rightarrow> (unit, 'a uefi_scheme) outcome" where
  "uefi_console_putc c = parse_byte c"

definition uefi_console_puts :: "bytes \<Rightarrow> 'a uefi_scheme \<Rightarrow> (unit, 'a uefi_scheme) outcome" where
  "uefi_console_puts cs = forO parse_byte cs"

definition uefi_console_write :: "ptr \<Rightarrow> u64 \<Rightarrow> 'a uefi_scheme \<Rightarrow> (unit, 'a uefi_scheme) outcome" where
  "uefi_console_write buf len =
     forO (\<lambda>i s. parse_byte (mem s (buf + of_nat i)) s) [0..<unat len]"

definition ReadKeyStroke :: "'a uefi_scheme \<Rightarrow> u64 \<times> 'a uefi_scheme" where
  "ReadKeyStroke s =
     (case key_in s (key_pos s) of (status, k) \<Rightarrow>
        (status, s\<lparr>key_pos := Suc (key_pos s),
                   pending_key := (case k of Some key \<Rightarrow> key | None \<Rightarrow> pending_key s)\<rparr>))"

definition uefi_console_data_ready :: "'a uefi_scheme \<Rightarrow> u32 \<times> 'a uefi_scheme" where
  "uefi_console_data_ready s =
     (if \<not> has_con_in s then (0, s)
      else if pending_key_valid s then (1, s)
      else (case ReadKeyStroke s of (status, s1) \<Rightarrow>
              if status = EFI_SUCCESS then (1, s1\<lparr>pending_key_valid := True\<rparr>) else (0, s1)))"

definition uefi_wait_key :: "'a uefi_scheme \<Rightarrow> 'a uefi_scheme option" where
  "uefi_wait_key = spin (\<lambda>s. case ReadKeyStroke s of (status, s1) \<Rightarrow> (status \<noteq> EFI_NOT_READY, s1))"

definition key_char :: "efi_input_key \<Rightarrow> u32" where
  "key_char k =
     (let c = UnicodeChar k
      in if c = 13 then 10 else if c \<noteq> 0 then ucast (ucast c :: u8) else 0)"

definition uefi_console_getc :: "'a uefi_scheme \<Rightarrow> (u32, 'a uefi_scheme) outcome" where
  "uefi_console_getc s =
     (if \<not> has_con_in s then Ret (-1) s
      else case (if pending_key_valid s then Some s else uefi_wait_key s) of
             None \<Rightarrow> Stop Spinning s
           | Some s1 \<Rightarrow> Ret (key_char (pending_key s1)) (s1\<lparr>pending_key_valid := False\<rparr>))"

lemma andThen_cong [fundef_cong]:
  "a = b \<Longrightarrow> (\<And>x s. b = Ret x s \<Longrightarrow> f x s = g x s) \<Longrightarrow> andThen a f = andThen b g"
  by (cases b) auto

function uefi_read_loop :: "ptr \<Rightarrow> u64 \<Rightarrow> u64 \<Rightarrow> 'a uefi_scheme \<Rightarrow> (u64, 'a uefi_scheme) outcome" where
  "uefi_read_loop buf len i s =
     (if i < len
      then (case uefi_console_data_ready s of (r, s1) \<Rightarrow>
              if r \<noteq> 0
              then andThen (uefi_console_getc s1) (\<lambda>c s2.
                     uefi_read_loop buf len (i + 1) (store8 (buf + i) (ucast c) s2))
              else Ret i s1)
      else Ret i s)"
  by pat_completeness auto
termination
  by (relation "measure (\<lambda>(buf, len, i, s). unat len - unat i)")
     (auto simp: unat_add_1 word_less_nat_alt diff_less_mono2)

declare uefi_read_loop.simps [simp del]

definition uefi_console_read :: "ptr \<Rightarrow> u64 \<Rightarrow> 'a uefi_scheme \<Rightarrow> (u64, 'a uefi_scheme) outcome" where
  "uefi_console_read buf len s =
     (if len = 0 then Ret 0 s
      else andThen (uefi_console_getc s) (\<lambda>c s1. uefi_read_loop buf len 1 (store8 buf (ucast c) s1)))"

section \<open>The types of the parser's variables\<close>

text \<open>
  What the declarations of the static variables promise: a C \<open>int\<close> for every number (parameters
  are -1 when missing, so never less than that), and eight parameters.  The cursor moves that the
  parser asks for stay below the largest \<open>int\<close>, too.
\<close>

definition parser_vars :: "'a uefi_scheme \<Rightarrow> bool" where
  "parser_vars s \<longleftrightarrow> length (csi_params s) = 8 \<and> (\<forall>v \<in> set (csi_params s). -1 \<le> v \<and> v \<le> INT_MAX)
     \<and> int (csi_n s) \<le> INT_MAX \<and> 0 \<le> csi_cur s \<and> csi_cur s \<le> INT_MAX"

fun cursor_in_range :: "io_event \<Rightarrow> bool" where
  "cursor_in_range (SetCursorPosition col row) \<longleftrightarrow> unat col < 2147483647 \<and> unat row < 2147483647"
| "cursor_in_range _ \<longleftrightarrow> True"

definition parser_typed :: "'a uefi_scheme \<Rightarrow> bool" where
  "parser_typed s \<longleftrightarrow> parser_vars s \<and> list_all cursor_in_range (evs s)"

lemma parser_typed_state [simp]:
  "parser_typed (s\<lparr>ansi_state := m\<rparr>) = parser_typed s" "parser_typed (s\<lparr>attr_pos := k\<rparr>) = parser_typed s"
  "parser_typed (emit e s) \<longleftrightarrow> parser_typed s \<and> cursor_in_range e"
  by (auto simp: parser_typed_def parser_vars_def emit_def)

lemma push_typed: "parser_typed s \<Longrightarrow> ends parser_typed (ansi_push_param s)"
  by (auto simp: ansi_push_param_def Let_def parser_typed_def parser_vars_def dest!: set_update_subset_insert [THEN subsetD])

lemma sgr_loop_typed: "parser_typed s \<Longrightarrow> ends parser_typed (sgr_loop is a s)"
  by (induction "is" arbitrary: a) simp_all

lemma coordinate_range:
  "1 \<le> v \<Longrightarrow> v \<le> INT_MAX \<Longrightarrow> unat (of_int (v - 1) :: u64) < 2147483647"
proof -
  assume v: "1 \<le> v" "v \<le> INT_MAX"
  define k where "k = nat (v - 1)"
  have k: "v - 1 = int k" "k < 2147483647" using v by (simp_all add: k_def)
  then have "unat (of_nat k :: u64) = k" by (simp add: unat_of_nat)
  then show ?thesis using k by simp
qed

lemma exec_typed:
  assumes "parser_typed s0" shows "ends parser_typed (ansi_exec f s0)"
  unfolding ansi_exec_def
proof (rule ends_andThen [OF push_typed [OF assms]])
  fix t :: "'a uefi_scheme" assume t: "parser_typed t"
  then have len: "length (csi_params t) = 8" and le: "\<And>i. i < 8 \<Longrightarrow> csi_params t ! i \<le> INT_MAX"
    by (auto simp: parser_typed_def parser_vars_def)
  have par: "1 \<le> (if b \<and> csi_params t ! i > 0 then csi_params t ! i else 1)"
    "(if b \<and> csi_params t ! i > 0 then csi_params t ! i else 1) \<le> INT_MAX" if "i < 8" for b i
    using le [OF that] by auto
  let ?row = "if csi_n t \<ge> 1 \<and> csi_params t ! 0 > 0 then csi_params t ! 0 else 1"
  let ?col = "if csi_n t \<ge> 2 \<and> csi_params t ! 1 > 0 then csi_params t ! 1 else 1"
  have "cursor_in_range (SetCursorPosition (of_int (?col - 1)) (of_int (?row - 1)))"
    unfolding cursor_in_range.simps by (intro conjI coordinate_range par) simp_all
  moreover have "ends parser_typed (andThen (sgr_loop is a (t\<lparr>attr_pos := k\<rparr>)) (\<lambda>a s. Ret () (emit (SetAttribute a) s)))"
    for "is" a k
    using t by (intro ends_andThen [OF sgr_loop_typed]) simp_all
  ultimately show "ends parser_typed (if \<not> has_con_out t then Ret () t
       else if f = 72 \<or> f = 102 then
         (let row = ?row; col = ?col in Ret () (emit (SetCursorPosition (of_int (col - 1)) (of_int (row - 1))) t))
       else if f = 74 then
         (let n = (if csi_n t \<ge> 1 \<and> csi_params t ! 0 \<ge> 0 then csi_params t ! 0 else 0)
          in Ret () (if n = 2 then emit ClearScreen t else t))
       else if f = 109 then
         (let attr = (case attr_in t (attr_pos t) of Some a \<Rightarrow> scast a | None \<Rightarrow> 0x07);
              s1 = t\<lparr>attr_pos := Suc (attr_pos t)\<rparr>
          in andThen (sgr_loop [0..<csi_n t] attr s1) (\<lambda>attr s. Ret () (emit (SetAttribute attr) s)))
       else Ret () t)"
    using t by (simp only: Let_def ends_simps ends_if parser_typed_state simp_thms if_split
        cursor_in_range.simps)
qed

lemma byte_typed:
  assumes "parser_typed s" shows "ends parser_typed (parse_byte c s)"
proof -
  have "ends parser_typed (andThen (ansi_exec f s) (\<lambda>_ s. Ret () (s\<lparr>ansi_state := ST_NORMAL\<rparr>)))" for f
    by (rule ends_andThen [OF exec_typed [OF assms]]) simp
  moreover have "parser_typed (raw_putc c s)" "parser_typed ((ansi_reset s)\<lparr>ansi_state := m\<rparr>)" for m
    using assms by (auto simp: raw_putc_def ansi_reset_def parser_typed_def parser_vars_def emit_def)
  moreover have "parser_typed (s\<lparr>csi_cur := v, csi_seen_digit := b\<rparr>)" if "0 \<le> v" "v \<le> INT_MAX" for v b
    using assms that by (simp add: parser_typed_def parser_vars_def)
  moreover have "0 \<le> csi_cur s" using assms by (simp add: parser_typed_def parser_vars_def)
  ultimately show ?thesis
    using assms push_typed [OF assms]
    by (auto simp: parse_byte_def Let_def word_le_def split: ansi_mode.split)
qed

section \<open>Encoded control sequences\<close>

text \<open>
  What a program prints to control the terminal: ESC, \<open>[\<close>, parameters separated by
  semicolons (decimal numbers or nothing), and a final byte.
\<close>

definition csi_param :: "nat option \<Rightarrow> bytes" where
  "csi_param p = (case p of None \<Rightarrow> [] | Some v \<Rightarrow> decimal v)"

fun csi_args :: "nat option list \<Rightarrow> bytes" where
  "csi_args [] = []"
| "csi_args [p] = csi_param p"
| "csi_args (p # q # ps) = csi_param p @ 59 # csi_args (q # ps)"

definition csi_encode :: "nat option list \<Rightarrow> u8 \<Rightarrow> bytes" where
  "csi_encode ps final = [0x1B, 91] @ csi_args ps @ [final]"

definition param_value :: "nat option \<Rightarrow> int" where
  "param_value p = (case p of None \<Rightarrow> -1 | Some v \<Rightarrow> int v)"

text \<open>The parser's variables while it is inside a sequence with the parameters \<open>vs\<close> behind it.\<close>

definition in_csi :: "int list \<Rightarrow> nat option \<Rightarrow> 'a uefi_scheme \<Rightarrow> 'a uefi_scheme" where
  "in_csi vs p s =
     s\<lparr>ansi_state := ST_CSI, csi_n := length vs,
       csi_params := take 8 (vs @ replicate (8 - length vs) 0),
       csi_cur := (case p of None \<Rightarrow> 0 | Some v \<Rightarrow> int v), csi_seen_digit := (p \<noteq> None)\<rparr>"

definition param_ok :: "nat option \<Rightarrow> bool" where
  "param_ok p = (case p of None \<Rightarrow> True | Some v \<Rightarrow> int v \<le> INT_MAX)"

abbreviation parse_bytes :: "bytes \<Rightarrow> 'a uefi_scheme \<Rightarrow> (unit, 'a uefi_scheme) outcome" where
  "parse_bytes \<equiv> forO parse_byte"

lemma param_ok_simps [simp]: "param_ok None" "param_ok (Some v) \<longleftrightarrow> int v \<le> INT_MAX"
  by (simp_all add: param_ok_def)

lemma ansi_push_param_mem: "post (\<lambda>_ u. mem u = mem s \<and> has_con_out u = has_con_out s) (ansi_push_param s)"
  by (simp add: ansi_push_param_def Let_def has_con_out_def)

lemma sgr_loop_mem: "post (\<lambda>_ u. mem u = mem s) (sgr_loop is a s)"
  by (induction "is" arbitrary: a) auto

lemma parse_byte_mem: "post (\<lambda>_ u. mem u = mem s) (parse_byte c s)"
proof -
  have exec: "post (\<lambda>_ u. mem u = mem s) (ansi_exec f s)" for f
    unfolding ansi_exec_def
    by (rule post_andThen [OF ansi_push_param_mem])
       (auto simp: Let_def intro!: post_andThen [where R = "\<lambda>_ u. mem u = mem s"] post_if
             intro: post_mono [OF sgr_loop_mem])
  have exec': "post (\<lambda>_ u. mem u = mem s) (andThen (ansi_exec f s) (\<lambda>_ s. Ret () (s\<lparr>ansi_state := ST_NORMAL\<rparr>)))" for f
    by (rule post_andThen [OF exec]) simp
  have push: "post (\<lambda>_ u. mem u = mem s) (ansi_push_param s)"
    by (rule post_mono [OF ansi_push_param_mem]) simp
  show ?thesis
    unfolding parse_byte_def
    by (auto simp: raw_putc_def ansi_reset_def Let_def exec' push split: ansi_mode.split intro!: post_if)
qed

lemma uefi_console_write_eq [state_eqs]:
  fixes s :: "'a uefi_scheme"
  shows "uefi_console_write buf len s = parse_bytes (mem_bytes (mem s) buf (unat len)) s"
proof -
  have "forO (\<lambda>i s. parse_byte (mem s (buf + of_nat i)) s) is t = parse_bytes (map (\<lambda>i. mem s (buf + of_nat i)) is) t"
    if "mem t = mem s" for "is" and t :: "'a uefi_scheme"
    using that
  proof (induction "is" arbitrary: t)
    case (Cons i "is")
    have "post (\<lambda>_ u. mem u = mem t) (parse_byte (mem s (buf + of_nat i)) t)" by (rule parse_byte_mem)
    then show ?case using Cons by (cases "parse_byte (mem s (buf + of_nat i)) t") auto
  qed simp
  then show ?thesis by (simp add: uefi_console_write_def mem_bytes_def)
qed

subsection \<open>Parsing what was encoded\<close>

lemma parse_digit:
  assumes "d < 10" and "csi_cur s * 10 + int d \<le> INT_MAX" and "ansi_state s = ST_CSI"
  shows "parse_byte (of_nat (48 + d)) s =
     Ret () (s\<lparr>csi_cur := csi_cur s * 10 + int d, csi_seen_digit := True\<rparr>)"
proof -
  have u: "unat (of_nat (48 + d) :: u8) = 48 + d" using assms(1) by (simp add: unat_of_nat del: of_nat_add)
  then have "uint (of_nat (48 + d) :: u8) = 48 + int d" by (metis of_nat_add of_nat_numeral uint_nat)
  moreover have "(48 :: u8) \<le> of_nat (48 + d) \<and> of_nat (48 + d) \<le> (57 :: u8)"
    using assms(1) u by (simp add: word_le_nat_alt)
  ultimately show ?thesis using assms by (simp add: parse_byte_def Let_def del: of_nat_add)
qed

lemma parse_decimal:
  assumes "int v \<le> INT_MAX"
  shows "parse_bytes (decimal v) (in_csi vs None s) = Ret () (in_csi vs (Some v) s)"
  using assms
proof (induction v rule: decimal.induct)
  case (1 v)
  show ?case
  proof (cases "v < 10")
    case True
    have "parse_byte (of_nat (48 + v)) (in_csi vs None s) =
        Ret () (in_csi vs None s\<lparr>csi_cur := csi_cur (in_csi vs None s) * 10 + int v, csi_seen_digit := True\<rparr>)"
      using True by (intro parse_digit) (simp_all add: in_csi_def)
    with True show ?thesis by (simp add: decimal.simps [of v] in_csi_def del: of_nat_add)
  next
    case False
    let ?s = "in_csi vs (Some (v div 10)) s"
    have "csi_cur ?s * 10 + int (v mod 10) = int v" by (simp add: in_csi_def zdiv_int zmod_int)
    then have "parse_byte (of_nat (48 + v mod 10)) ?s =
        Ret () (?s\<lparr>csi_cur := int v, csi_seen_digit := True\<rparr>)"
      using 1(2) parse_digit [of "v mod 10" ?s] by (simp add: in_csi_def del: of_nat_add)
    with False 1 show ?thesis
      by (simp add: decimal.simps [of v] forO_append in_csi_def del: of_nat_add)
  qed
qed

lemma parse_param:
  "param_ok p \<Longrightarrow> parse_bytes (csi_param p) (in_csi vs None s) = Ret () (in_csi vs p s)"
  by (cases p) (simp_all add: csi_param_def parse_decimal)

lemma push_in_csi:
  assumes "int (length vs) < INT_MAX"
  shows "ansi_push_param (in_csi vs p s) = Ret () (in_csi (vs @ [param_value p]) None s)"
proof -
  have "(take 8 (vs @ replicate (8 - length vs) 0))[length vs := x] =
      take 8 ((vs @ [x]) @ replicate (8 - length (vs @ [x])) 0)" if lt: "length vs < 8" for x
  proof -
    obtain n where n: "8 - length vs = Suc n" using lt by (cases "8 - length vs") auto
    then have "8 - length (vs @ [x]) = n" by simp
    with n lt show ?thesis by simp
  qed
  then show ?thesis using assms
    by (auto simp: ansi_push_param_def in_csi_def param_value_def Let_def split: option.split)
qed

lemma parse_args:
  assumes "ps \<noteq> []" and "\<forall>p \<in> set ps. param_ok p" and "int (length vs + length ps) < INT_MAX"
  shows "parse_bytes (csi_args ps) (in_csi vs None s) =
     Ret () (in_csi (vs @ map param_value (butlast ps)) (last ps) s)"
  using assms
proof (induction ps arbitrary: vs rule: csi_args.induct)
  case (3 p q ps)
  have "parse_byte 59 (in_csi vs p s) = ansi_push_param (in_csi vs p s)"
    by (simp add: parse_byte_def in_csi_def)
  also have "\<dots> = Ret () (in_csi (vs @ [param_value p]) None s)"
    using 3(4) by (intro push_in_csi) simp
  finally show ?case using 3(1) [of "vs @ [param_value p]"] 3(3,4)
    by (simp add: forO_append parse_param)
qed (simp_all add: parse_param)

text \<open>A whole control sequence runs \<open>ansi_exec\<close> on exactly its parameters.\<close>

lemma parse_csi:
  assumes "ansi_state s = ST_NORMAL" and "ps \<noteq> []" and "\<forall>p \<in> set ps. param_ok p"
    and "int (length ps) < INT_MAX" and "0x40 \<le> f" and "f \<le> 0x7E"
  shows "parse_bytes (csi_encode ps f) s =
     andThen (ansi_exec f (in_csi (map param_value (butlast ps)) (last ps) s))
       (\<lambda>_ s. Ret () (s\<lparr>ansi_state := ST_NORMAL\<rparr>))"
proof -
  have start: "parse_bytes [0x1B, 91] s = Ret () (in_csi [] None s)"
    using assms(1) by (simp add: parse_byte_def ansi_reset_def in_csi_def)
  have nf: "\<not> f \<le> 57" "f \<noteq> 59" "f \<noteq> 63" "f \<noteq> 62" "f \<noteq> 61" "f \<noteq> 32"
    using assms(5) by (auto simp: word_le_nat_alt)
  have final: "parse_byte f (in_csi vs p s) =
      andThen (ansi_exec f (in_csi vs p s)) (\<lambda>_ s. Ret () (s\<lparr>ansi_state := ST_NORMAL\<rparr>))" for vs p
    using nf assms(5,6) by (simp add: parse_byte_def in_csi_def)
  have "parse_bytes (csi_encode ps f) s =
      andThen (parse_bytes (csi_args ps) (in_csi [] None s)) (\<lambda>_. parse_bytes [f])"
    unfolding csi_encode_def forO_append start by simp
  also have "\<dots> = parse_bytes [f] (in_csi (map param_value (butlast ps)) (last ps) s)"
    using assms(2,3,4) by (simp add: parse_args)
  also have "\<dots> = parse_byte f (in_csi (map param_value (butlast ps)) (last ps) s)"
    by (cases "parse_byte f (in_csi (map param_value (butlast ps)) (last ps) s)") simp_all
  finally show ?thesis by (simp add: final)
qed

lemma exec_in_csi:
  assumes "ps \<noteq> []" and "int (length ps) < INT_MAX"
  shows "ansi_push_param (in_csi (map param_value (butlast ps)) (last ps) s) =
     Ret () (in_csi (map param_value ps) None s)"
proof -
  have "map param_value (butlast ps) @ [param_value (last ps)] = map param_value ps"
    using assms(1) by (metis append_butlast_last_id map_append list.simps(8,9))
  then show ?thesis using assms(2) by (subst push_in_csi) simp_all
qed

subsection \<open>Input that cannot run into undefined behaviour\<close>

text \<open>
  A syntactic condition on terminal output: within one control sequence at most seven
  semicolons (eight parameters) and at most nine digits per number.
\<close>

fun tame :: "ansi_mode \<Rightarrow> nat \<Rightarrow> nat \<Rightarrow> bytes \<Rightarrow> bool" where
  "tame md sc dg [] = True"
| "tame ST_NORMAL sc dg (c # cs) = tame (if c = 0x1B then ST_ESC else ST_NORMAL) 0 0 cs"
| "tame ST_ESC sc dg (c # cs) = tame (if c = 91 then ST_CSI else ST_NORMAL) 0 0 cs"
| "tame ST_CSI sc dg (c # cs) =
     (if 48 \<le> c \<and> c \<le> 57 then dg < 9 \<and> tame ST_CSI sc (Suc dg) cs
      else if c = 59 then sc < 7 \<and> tame ST_CSI (Suc sc) 0 cs
      else if c = 63 \<or> c = 62 \<or> c = 61 \<or> c = 32 then tame ST_CSI sc dg cs
      else tame ST_NORMAL 0 0 cs)"

definition tame_state :: "ansi_mode \<Rightarrow> nat \<Rightarrow> nat \<Rightarrow> 'a uefi_scheme \<Rightarrow> bool" where
  "tame_state md sc dg s \<longleftrightarrow> ansi_state s = md \<and>
     (md = ST_CSI \<longrightarrow> csi_n s = sc \<and> sc \<le> 7 \<and> dg \<le> 9 \<and> 0 \<le> csi_cur s \<and> csi_cur s < 10 ^ dg)"

lemma sgr_loop_ok: "\<forall>i \<in> set is. i < 8 \<Longrightarrow> sgr_loop is a s = Ret (fold (\<lambda>i. sgr_attr (csi_params s ! i)) is a) s"
  by (induction "is" arbitrary: a) auto

lemma ansi_exec_ok:
  assumes "csi_n s \<le> 7" shows "\<exists>t. ansi_exec f s = Ret () t"
proof -
  define s1 where "s1 = s\<lparr>csi_params := (csi_params s)[csi_n s := (if csi_seen_digit s then csi_cur s else -1)],
      csi_n := csi_n s + 1, csi_cur := 0, csi_seen_digit := False\<rparr>"
  have "ansi_push_param s = Ret () s1"
    using assms by (simp add: ansi_push_param_def s1_def)
  moreover have "csi_n s1 \<le> 8" using assms by (simp add: s1_def)
  ultimately show ?thesis
    by (simp add: ansi_exec_def Let_def sgr_loop_ok)
qed

lemma parse_byte_tame:
  assumes "tame md sc dg (c # cs)" and "tame_state md sc dg s"
  shows "\<exists>t md' sc' dg'. parse_byte c s = Ret () t \<and> tame_state md' sc' dg' t \<and> tame md' sc' dg' cs"
proof (cases md)
  case ST_NORMAL
  with assms show ?thesis
    by (intro exI [of _ "if c = 0x1B then s\<lparr>ansi_state := ST_ESC\<rparr> else raw_putc c s"]
              exI [of _ "if c = 0x1B then ST_ESC else ST_NORMAL"] exI [of _ 0])
       (auto simp: parse_byte_def tame_state_def raw_putc_def emit_def)
next
  case ST_ESC
  with assms show ?thesis
    by (intro exI [of _ "if c = 91 then (ansi_reset s)\<lparr>ansi_state := ST_CSI\<rparr> else s\<lparr>ansi_state := ST_NORMAL\<rparr>"]
              exI [of _ "if c = 91 then ST_CSI else ST_NORMAL"] exI [of _ 0])
       (auto simp: parse_byte_def tame_state_def ansi_reset_def)
next
  case ST_CSI
  with assms(2) have st: "ansi_state s = ST_CSI" "csi_n s = sc" "sc \<le> 7" "dg \<le> 9"
      "0 \<le> csi_cur s" "csi_cur s < 10 ^ dg"
    by (auto simp: tame_state_def)
  consider (digit) "48 \<le> c \<and> c \<le> 57" | (semi) "c = 59" | (skip) "c = 63 \<or> c = 62 \<or> c = 61 \<or> c = 32"
    | (final) "(48 \<le> c \<and> c \<le> 57) = False" "(c = 59) = False" "(c = 63 \<or> c = 62 \<or> c = 61 \<or> c = 32) = False"
    by blast
  then show ?thesis
  proof cases
    case digit
    then have d: "48 \<le> uint c" "uint c \<le> 57" by (auto simp: word_le_def)
    have dg: "dg < 9" "tame ST_CSI sc (Suc dg) cs" using assms(1) ST_CSI digit by auto
    have "(10 :: int) ^ Suc dg \<le> 10 ^ 9" using dg(1) by (intro power_increasing) auto
    moreover have lt: "csi_cur s * 10 + (uint c - 48) < 10 ^ Suc dg" using st(6) d by simp
    ultimately have "csi_cur s * 10 + (uint c - 48) \<le> INT_MAX" by simp
    moreover have "csi_cur s * 10 \<le> csi_cur s * 10 + (uint c - 48)" using d by simp
    ultimately have "parse_byte c s = Ret () (s\<lparr>csi_cur := csi_cur s * 10 + (uint c - 48), csi_seen_digit := True\<rparr>)"
      (is "_ = Ret () ?t")
      using digit by (simp add: parse_byte_def Let_def st(1))
    moreover have "tame_state ST_CSI sc (Suc dg) ?t"
      using st d lt dg(1) by (simp add: tame_state_def)
    ultimately show ?thesis using dg(2) by blast
  next
    case semi
    with assms(1) ST_CSI have sc: "sc < 7" "tame ST_CSI (Suc sc) 0 cs" by auto
    with semi st show ?thesis
      by (intro exI [of _ "s\<lparr>csi_params := (csi_params s)[sc := (if csi_seen_digit s then csi_cur s else -1)],
            csi_n := sc + 1, csi_cur := 0, csi_seen_digit := False\<rparr>"]
            exI [of _ ST_CSI] exI [of _ "Suc sc"] exI [of _ 0])
         (simp add: parse_byte_def ansi_push_param_def tame_state_def)
  next
    case skip
    then have "parse_byte c s = Ret () s" by (elim disjE) (simp_all add: parse_byte_def st(1))
    moreover have "tame ST_CSI sc dg cs" using skip assms(1) ST_CSI by (elim disjE) simp_all
    ultimately show ?thesis using assms(2) ST_CSI by blast
  next
    case final
    obtain t where t: "ansi_exec c s = Ret () t" using ansi_exec_ok [of s c] st by auto
    have "parse_byte c s = Ret () ((if 0x40 \<le> c \<and> c \<le> 0x7E then t else s)\<lparr>ansi_state := ST_NORMAL\<rparr>)"
      (is "_ = Ret () ?t")
      unfolding parse_byte_def st(1) ansi_mode.case final if_False t
      by (cases "0x40 \<le> c \<and> c \<le> 0x7E") (simp_all only: simp_thms if_True if_False andThen.simps)
    moreover have "tame_state ST_NORMAL 0 0 ?t" by (simp add: tame_state_def)
    moreover have "tame ST_NORMAL 0 0 cs" using assms(1) unfolding ST_CSI tame.simps final if_False .
    ultimately show ?thesis by blast
  qed
qed

lemma parse_bytes_tame:
  "tame md sc dg cs \<Longrightarrow> tame_state md sc dg s \<Longrightarrow> \<exists>t. parse_bytes cs s = Ret () t"
proof (induction cs arbitrary: md sc dg s)
  case (Cons c cs)
  then obtain t md' sc' dg' where "parse_byte c s = Ret () t" "tame_state md' sc' dg' t" "tame md' sc' dg' cs"
    using parse_byte_tame by blast
  with Cons.IH show ?case by simp
qed simp

section \<open>Keyboard input\<close>

definition key_byte :: "efi_input_key \<Rightarrow> u8" where
  "key_byte k = ucast (key_char k)"

lemma key_byte_eq: "key_byte k = (if UnicodeChar k = 13 then 10 else ucast (UnicodeChar k))"
proof -
  have "(ucast (ucast (ucast c :: u8) :: u32) :: u8) = ucast c" for c :: u16
    by (rule bit_word_eqI) (simp add: bit_simps)
  then show ?thesis by (simp add: key_byte_def key_char_def Let_def)
qed

lemma uefi_read_loop_keys:
  assumes "unat i + length ks \<le> unat len" and "has_con_in s" and "\<not> pending_key_valid s"
    and "\<And>j. j < length ks \<Longrightarrow> key_in s (key_pos s + j) = (EFI_SUCCESS, Some (ks ! j))"
    and "unat i + length ks = unat len \<or> fst (key_in s (key_pos s + length ks)) \<noteq> EFI_SUCCESS"
  shows "\<exists>t. uefi_read_loop buf len i s = Ret (i + of_nat (length ks)) t
     \<and> mem t = mem_put (mem s) (buf + i) (map key_byte ks) \<and> evs t = evs s \<and> \<not> pending_key_valid t"
  using assms
proof (induction ks arbitrary: i s)
  case Nil
  show ?case
  proof (cases "i < len")
    case True
    with Nil show ?thesis
      by (simp add: uefi_read_loop.simps [of buf len i s] uefi_console_data_ready_def ReadKeyStroke_def
            word_less_nat_alt case_prod_beta)
  next
    case False
    with Nil show ?thesis by (simp add: uefi_read_loop.simps [of buf len i s])
  qed
next
  case (Cons k ks)
  have lt: "i < len" using Cons.prems(1) by (simp add: word_less_nat_alt)
  have k: "key_in s (key_pos s) = (EFI_SUCCESS, Some k)" using Cons.prems(4) [of 0] by simp
  let ?s1 = "s\<lparr>key_pos := Suc (key_pos s), pending_key := k, pending_key_valid := False\<rparr>"
  let ?t = "store8 (buf + i) (key_byte k) ?s1"
  have "\<exists>t. uefi_read_loop buf len (i + 1) ?t = Ret (i + 1 + of_nat (length ks)) t
     \<and> mem t = mem_put (mem ?t) (buf + (i + 1)) (map key_byte ks) \<and> evs t = evs ?t \<and> \<not> pending_key_valid t"
  proof (rule Cons.IH)
    show "key_in ?t (key_pos ?t + j) = (EFI_SUCCESS, Some (ks ! j))" if "j < length ks" for j
      using Cons.prems(4) [of "Suc j"] that by (simp add: store_def)
  qed (use Cons.prems in \<open>auto simp: store_def has_con_in_def unat_add_1 [OF lt]\<close>)
  moreover have "uefi_read_loop buf len i s = uefi_read_loop buf len (i + 1) ?t"
    using lt k Cons.prems(2,3)
    by (simp add: uefi_read_loop.simps [of buf len i s] uefi_console_data_ready_def ReadKeyStroke_def
          uefi_console_getc_def has_con_in_def key_byte_def)
  moreover have "mem_put (mem_put (mem s) (buf + i) [key_byte k]) (buf + i + of_nat (length [key_byte k])) (map key_byte ks) =
      mem_put (mem s) (buf + i) ([key_byte k] @ map key_byte ks)"
    using Cons.prems(1) unat_bound [of len] by (intro mem_put_append) simp
  ultimately show ?case by (simp add: store_def add.assoc)
qed

section \<open>Plain text\<close>

text \<open>What the firmware prints for a character.\<close>

definition text_event :: "u8 \<Rightarrow> io_event" where
  "text_event c = OutputString (if c = 10 then [13, 10] else if c = 0 then [] else [ucast c])"

lemma plain_text:
  assumes "ansi_state s = ST_NORMAL" and "has_con_out s" and "0x1B \<notin> set cs"
  shows "parse_bytes cs s = Ret () (s\<lparr>evs := evs s @ map text_event cs\<rparr>)"
  using assms
proof (induction cs arbitrary: s)
  case (Cons c cs)
  have "parse_byte c s = Ret () (s\<lparr>evs := evs s @ [text_event c]\<rparr>)"
    using Cons.prems by (auto simp: parse_byte_def raw_putc_def text_event_def emit_def)
  with Cons show ?case by (simp add: has_con_out_def)
qed simp

section \<open>Properties\<close>

text \<open>The machine of the examples: an attached console, no key pressed, attribute 7.\<close>

definition blank_uefi :: uefi where
  "blank_uefi = hw.extend blank_hw
     \<lparr>sys_table = True, con_out = True, con_in = True, attr_in = (\<lambda>_. Some 7), attr_pos = 0,
      key_in = (\<lambda>_. (EFI_NOT_READY, None)), key_pos = 0,
      pending_key = \<lparr>ScanCode = 0, UnicodeChar = 0\<rparr>, pending_key_valid = False,
      ansi_state = ST_NORMAL, csi_params = replicate 8 0, csi_n = 0, csi_cur = 0,
      csi_seen_digit = False\<rparr>"

lemma blank_uefi_simps [simp]:
  "has_con_out blank_uefi" "has_con_in blank_uefi" "ansi_state blank_uefi = ST_NORMAL"
  "evs blank_uefi = []" "\<not> pending_key_valid blank_uefi" "key_pos blank_uefi = 0"
  "attr_in blank_uefi = (\<lambda>_. Some 7)" "attr_pos blank_uefi = 0"
  by (simp_all add: blank_uefi_def blank_hw_def hw.defs has_con_out_def has_con_in_def)

lemma in_csi_simps [simp]:
  "has_con_out (in_csi vs p s) = has_con_out s" "evs (in_csi vs p s) = evs s"
  "csi_n (in_csi vs p s) = length vs" "attr_in (in_csi vs p s) = attr_in s"
  "attr_pos (in_csi vs p s) = attr_pos s" "mem (in_csi vs p s) = mem s"
  by (simp_all add: in_csi_def has_con_out_def)

lemma in_csi_param: "i < length vs \<Longrightarrow> i < 8 \<Longrightarrow> csi_params (in_csi vs p s) ! i = vs ! i"
  by (simp add: in_csi_def nth_append)

text \<open>A row or column parameter: missing and zero mean one.\<close>

definition coordinate :: "nat option list \<Rightarrow> nat \<Rightarrow> nat" where
  "coordinate ps i = (if i < length ps then (case ps ! i of Some v \<Rightarrow> max v 1 | None \<Rightarrow> 1) else 1)"

lemma coordinate_param:
  "i < 8 \<Longrightarrow> (if csi_n (in_csi (map param_value ps) None s) \<ge> Suc i \<and> csi_params (in_csi (map param_value ps) None s) ! i > 0
     then csi_params (in_csi (map param_value ps) None s) ! i else 1) = int (coordinate ps i)"
  by (auto simp: coordinate_def in_csi_param param_value_def split: option.split)

text \<open>
  C11 (roundtrip).  A cursor positioning sequence, written out with decimal parameters (any number of them
  below 2^31 - 1, each missing or within a C \<open>int\<close>), makes the console call \<open>SetCursorPosition\<close> exactly
  once, with the zero-based column and row, where missing and zero parameters count as one;
  nothing is printed and the parser is back to text.
\<close>

theorem cursor_sequence:
  assumes "ansi_state s = ST_NORMAL" and "has_con_out s" and "ps \<noteq> []" and "length ps < 2147483647"
    and "\<forall>p \<in> set ps. param_ok p" and "f = 72 \<or> f = 102"
  shows "\<exists>t. parse_bytes (csi_encode ps f) s = Ret () t \<and> ansi_state t = ST_NORMAL \<and> mem t = mem s
     \<and> evs t = evs s @ [SetCursorPosition (of_nat (coordinate ps 1 - 1)) (of_nat (coordinate ps 0 - 1))]"
proof -
  have f: "0x40 \<le> f" "f \<le> 0x7E" using assms(6) by auto
  have n: "int (length ps) < INT_MAX" using assms(4) by simp
  have pos: "1 \<le> coordinate ps i" for i by (auto simp: coordinate_def split: option.split)
  have sub: "int (coordinate ps i) - 1 = int (coordinate ps i - 1)" for i using pos [of i] by simp
  let ?t = "in_csi (map param_value ps) None s"
  have row: "(if csi_n ?t \<ge> 1 \<and> csi_params ?t ! 0 > 0 then csi_params ?t ! 0 else 1) = int (coordinate ps 0)"
    using coordinate_param [of 0 ps s] by simp
  have col: "(if csi_n ?t \<ge> 2 \<and> csi_params ?t ! 1 > 0 then csi_params ?t ! 1 else 1) = int (coordinate ps 1)"
    using coordinate_param [of 1 ps s] by (simp add: numeral_2_eq_2)
  have "ansi_exec f (in_csi (map param_value (butlast ps)) (last ps) s) =
      Ret () (emit (SetCursorPosition (of_nat (coordinate ps 1 - 1)) (of_nat (coordinate ps 0 - 1))) ?t)"
    unfolding ansi_exec_def exec_in_csi [OF assms(3) n] andThen.simps Let_def row col sub
    using assms(2,6) by auto
  then show ?thesis by (simp add: parse_csi [OF assms(1,3,5) n f])
qed

theorem cursor_sequence_witness:
  "\<exists>t. parse_bytes (csi_encode [Some 12, Some 40] 72) blank_uefi = Ret () t \<and> ansi_state t = ST_NORMAL
     \<and> mem t = mem blank_uefi \<and> evs t = [SetCursorPosition 39 11]"
  using cursor_sequence [of blank_uefi "[Some 12, Some 40]" 72]
  by (simp add: coordinate_def)

text \<open>
  The colours the firmware's attribute can hold, a foreground from 0 to 15 in its low four bits
  and a background from 0 to 7 in bits 4 to 6, and what a parameter of a colour sequence does to
  them.  Colour numbers are the firmware's, where 1 is blue and 4 is red; the code passes the ANSI
  numbers through, where they are the other way round.  The attribute arithmetic of \<open>ansi_exec\<close> is an
  implementation of this, except for the parameters 100 to 107, which have no colour of this kind: they
  are left to \<open>sgr_bright_background\<close> below.
\<close>

record colours =
  foreground :: nat
  background :: nat

definition efi_attr :: "colours \<Rightarrow> u64" where
  "efi_attr c = of_nat (foreground c + 16 * background c)"

definition colours_ok :: "colours \<Rightarrow> bool" where
  "colours_ok c \<longleftrightarrow> foreground c < 16 \<and> background c < 8"

lemma nibble_word:
  assumes "n < 16" shows "(of_nat n :: u64) = take_bit 4 (of_nat n)"
  using assms by (simp add: take_bit_of_nat take_bit_nat_eq_self)

lemma efi_attr_or:
  assumes "n < 16"
  shows "(of_nat (n + 16 * m) :: u64) = push_bit 4 (of_nat m) OR of_nat n"
proof -
  have "(of_nat (n + 16 * m) :: u64) = push_bit 4 (of_nat m) + of_nat n"
    by (simp add: push_bit_eq_mult mult.commute add.commute)
  also have "\<dots> = push_bit 4 (of_nat m) OR of_nat n"
    by (subst (1 2) nibble_word [OF assms], rule disjunctive_add) (auto simp: bit_simps)
  finally show ?thesis .
qed

lemma efi_attr_parts:
  assumes "n < 16" and "m < 16"
  shows "(of_nat (n + 16 * m) :: u64) AND 0xF0 = push_bit 4 (of_nat m)"
    and "(of_nat (n + 16 * m) :: u64) AND 0x0F = of_nat n"
proof -
  have m: "(0xF0 :: u64) = push_bit 4 (mask 4)" "(0x0F :: u64) = mask 4" by (simp_all add: mask_eq_exp_minus_1)
  note nib = nibble_word [OF assms(1)] nibble_word [OF assms(2)]
  show "(of_nat (n + 16 * m) :: u64) AND 0xF0 = push_bit 4 (of_nat m)"
    unfolding efi_attr_or [OF assms(1)] m by (subst nib(1), subst (1 2) nib(2)) (rule bit_word_eqI, auto simp: bit_simps)
  show "(of_nat (n + 16 * m) :: u64) AND 0x0F = of_nat n"
    unfolding efi_attr_or [OF assms(1)] m by (subst (1 2) nib(1)) (rule bit_word_eqI, auto simp: bit_simps)
qed

definition select_colour :: "nat \<Rightarrow> colours \<Rightarrow> colours" where
  "select_colour p c =
     (if p = 0 then \<lparr>foreground = 7, background = 0\<rparr>
      else if p \<in> {30..37} then c\<lparr>foreground := p - 30\<rparr>
      else if p \<in> {40..47} then c\<lparr>background := p - 40\<rparr>
      else if p \<in> {90..97} then c\<lparr>foreground := p - 82\<rparr>
      else c)"

lemma select_colour_ok: "colours_ok c \<Longrightarrow> colours_ok (select_colour p c)"
  by (auto simp: colours_ok_def select_colour_def)

lemma of_int_nat: "m \<le> p \<Longrightarrow> (of_int (int p - int m) :: u64) = of_nat (p - m)"
  by (metis of_int_of_nat_eq of_nat_diff)

lemma sgr_attr_bright:
  assumes "colours_ok c" and "p \<in> {100..107}"
  shows "sgr_attr (int p) (efi_attr c) = of_nat (foreground c + 16 * (p - 92))"
proof -
  have c: "foreground c < 16" "background c < 16" using assms(1) by (simp_all add: colours_ok_def)
  have "sgr_attr (int p) (efi_attr c) = (efi_attr c AND 0x0F) OR push_bit 4 (of_int (int p - int 92))"
    using assms(2) by (simp add: sgr_attr_def)
  also have "\<dots> = of_nat (foreground c + 16 * (p - 92))"
    unfolding efi_attr_def efi_attr_parts [OF c] using assms(2) efi_attr_or [OF c(1), of "p - 92"]
    by (subst of_int_nat) (simp_all add: or.commute)
  finally show ?thesis .
qed

lemma efi_attr_bit_7:
  assumes "n < 16" and "8 \<le> m" and "m < 16"
  shows "bit (of_nat (n + 16 * m) :: u64) 7"
proof -
  have "m \<in> {8, 9, 10, 11, 12, 13, 14, 15}" using assms(2,3) by auto
  then have "bit m 3" by (elim insertE) (simp_all add: bit_nat_def)
  then show ?thesis unfolding efi_attr_or [OF assms(1)] by (simp add: bit_simps)
qed

lemma sgr_attr_refines:
  assumes "colours_ok c" and "p \<notin> {100..107}"
  shows "sgr_attr (int p) (efi_attr c) = efi_attr (select_colour p c)"
proof -
  have c: "foreground c < 16" "background c < 16" using assms(1) by (simp_all add: colours_ok_def)
  note parts = efi_attr_parts [OF c]
  have f: "push_bit 4 (of_nat (background c)) OR of_nat k = (of_nat (k + 16 * background c) :: u64)" if "k < 16" for k
    using efi_attr_or [OF that] by simp
  have b: "of_nat (foreground c) OR push_bit 4 (of_nat k) = (of_nat (foreground c + 16 * k) :: u64)" for k
    using efi_attr_or [OF c(1)] by (simp add: or.commute)
  consider "p = 0" | "p \<in> {30..37}" | "p \<in> {40..47}" | "p \<in> {90..97}"
    | "p \<noteq> 0" "p \<notin> {30..37}" "p \<notin> {40..47}" "p \<notin> {90..97}" by blast
  then show ?thesis
  proof cases
    case 2
    then have "sgr_attr (int p) (efi_attr c) = (efi_attr c AND 0xF0) OR of_int (int p - int 30)" by (simp add: sgr_attr_def)
    also have "\<dots> = of_nat (p - 30 + 16 * background c)"
      unfolding efi_attr_def parts using 2 by (subst of_int_nat) (simp, intro f, auto)
    finally show ?thesis using 2 by (simp only: efi_attr_def) (simp add: select_colour_def)
  next
    case 3
    then have "sgr_attr (int p) (efi_attr c) = (efi_attr c AND 0x0F) OR push_bit 4 (of_int (int p - int 40))" by (simp add: sgr_attr_def)
    also have "\<dots> = of_nat (foreground c + 16 * (p - 40))"
      unfolding efi_attr_def parts using 3 by (subst of_int_nat) (simp, intro b)
    finally show ?thesis using 3 by (simp only: efi_attr_def) (simp add: select_colour_def)
  next
    case 4
    then have "sgr_attr (int p) (efi_attr c) = (efi_attr c AND 0xF0) OR of_int (int p - int 82)" by (simp add: sgr_attr_def)
    also have "\<dots> = of_nat (p - 82 + 16 * background c)"
      unfolding efi_attr_def parts using 4 by (subst of_int_nat) (simp, intro f, auto)
    finally show ?thesis using 4 by (simp only: efi_attr_def) (simp add: select_colour_def)
  next
    case 5
    then show ?thesis using assms(2) by (auto simp: sgr_attr_def select_colour_def)
  qed (auto simp: sgr_attr_def select_colour_def efi_attr_def)
qed

definition selected :: "nat option list \<Rightarrow> colours \<Rightarrow> colours" where
  "selected ps = fold (\<lambda>p. select_colour (case p of None \<Rightarrow> 0 | Some v \<Rightarrow> v)) ps"

lemma sgr_fold_refines:
  assumes "colours_ok c" and "\<forall>p \<in> set ps. p \<notin> Some ` {100..107}"
  shows "fold sgr_attr (map param_value ps) (efi_attr c) = efi_attr (selected ps c)"
  using assms
proof (induction ps arbitrary: c)
  case (Cons p ps)
  let ?v = "case p of None \<Rightarrow> 0 | Some v \<Rightarrow> v"
  have "sgr_attr (param_value p) = sgr_attr (int ?v)"
    by (simp add: param_value_def sgr_attr_def fun_eq_iff split: option.split)
  moreover have "?v \<notin> {100..107}" using Cons.prems(2) by (cases p) auto
  ultimately show ?case
    using Cons.IH [OF select_colour_ok [OF Cons.prems(1)]] sgr_attr_refines [OF Cons.prems(1), of ?v] Cons.prems(2)
    by (simp add: selected_def)
qed (simp add: selected_def)

text \<open>The colours the firmware reports; without a mode block the code starts from grey on black.\<close>

definition current_colours :: "'a uefi_scheme \<Rightarrow> colours \<Rightarrow> bool" where
  "current_colours s c \<longleftrightarrow> colours_ok c
     \<and> (case attr_in s (attr_pos s) of Some a \<Rightarrow> scast a = efi_attr c | None \<Rightarrow> c = \<lparr>foreground = 7, background = 0\<rparr>)"

lemma parse_sgr:
  assumes "ansi_state s = ST_NORMAL" and "has_con_out s" and "ps \<noteq> []" and "length ps \<le> 8"
    and "\<forall>p \<in> set ps. param_ok p" and "current_colours s c"
  shows "\<exists>t. parse_bytes (csi_encode ps 109) s = Ret () t \<and> ansi_state t = ST_NORMAL
     \<and> evs t = evs s @ [SetAttribute (fold sgr_attr (map param_value ps) (efi_attr c))]"
proof -
  have n: "int (length ps) < INT_MAX" using assms(4) by simp
  let ?s = "in_csi (map param_value ps) None s\<lparr>attr_pos := Suc (attr_pos s)\<rparr>"
  have "fold (\<lambda>i. sgr_attr (csi_params ?s ! i)) [0..<length ps] b = fold sgr_attr (map param_value ps) b" for b
  proof -
    have "fold (\<lambda>i. sgr_attr (csi_params ?s ! i)) [0..<length ps] b =
        fold sgr_attr (map (\<lambda>i. csi_params ?s ! i) [0..<length ps]) b"
      by (simp add: fold_map comp_def)
    also have "map (\<lambda>i. csi_params ?s ! i) [0..<length ps] = map param_value ps"
      using assms(4) by (intro nth_equalityI) (simp_all add: in_csi_param)
    finally show ?thesis .
  qed
  moreover have "(case attr_in s (attr_pos s) of Some a \<Rightarrow> scast a | None \<Rightarrow> 0x07) = efi_attr c"
    using assms(6) by (auto simp: current_colours_def efi_attr_def split: option.splits)
  ultimately show ?thesis
    using assms(2,3,4)
    by (simp add: parse_csi [OF assms(1,3,5) n] ansi_exec_def exec_in_csi [OF assms(3) n] Let_def sgr_loop_ok)
qed

text \<open>
  C17 (refinement).  On a console that is present and in its text state, whose current attribute is a
  foreground from 0 to 15 with a background from 0 to 7 (without a mode block: 7 on 0), a colour sequence
  of one to eight parameters, none of them from 100 to 107 or beyond a C \<open>int\<close>, makes exactly one
  \<open>SetAttribute\<close> call.  Its argument is the attribute after every parameter in turn, from left to
  right: 0 or a missing one resets to 7 on 0, 30 to 37 select the foreground numbers 0 to 7, 90 to 97 the numbers
  8 to 15, 40 to 47 the background numbers 0 to 7, and any other one changes nothing.  The numbers
  are the firmware's: the code does not translate the ANSI order of the colours into it.
\<close>

theorem sgr_sequence:
  assumes "ansi_state s = ST_NORMAL" and "has_con_out s" and "ps \<noteq> []" and "length ps \<le> 8"
    and "\<forall>p \<in> set ps. param_ok p" and "current_colours s c"
    and "\<forall>p \<in> set ps. p \<notin> Some ` {100..107}"
  shows "\<exists>t. parse_bytes (csi_encode ps 109) s = Ret () t \<and> ansi_state t = ST_NORMAL
     \<and> evs t = evs s @ [SetAttribute (efi_attr (selected ps c))]"
  using parse_sgr [OF assms(1-6)] sgr_fold_refines [OF _ assms(7)] assms(6)
  by (simp add: current_colours_def)

theorem sgr_sequence_witness:
  "\<exists>t. parse_bytes (csi_encode [Some 1, Some 31, None, Some 44] 109) blank_uefi = Ret () t
     \<and> ansi_state t = ST_NORMAL \<and> evs t = [SetAttribute 0x47]"
proof -
  let ?grey = "\<lparr>foreground = 7, background = 0\<rparr>" and ?ps = "[Some 1, Some 31, None, Some 44]"
  have c: "current_colours blank_uefi ?grey"
    by (simp add: current_colours_def colours_ok_def efi_attr_def)
  have "efi_attr (selected ?ps ?grey) = 0x47"
    by (simp add: selected_def select_colour_def efi_attr_def)
  moreover have "\<exists>t. parse_bytes (csi_encode ?ps 109) blank_uefi = Ret () t \<and> ansi_state t = ST_NORMAL
     \<and> evs t = evs blank_uefi @ [SetAttribute (efi_attr (selected ?ps ?grey))]"
    using c by (intro sgr_sequence) (simp_all add: image_iff)
  ultimately show ?thesis by simp
qed

text \<open>
  C33 (error).  A colour sequence with exactly one parameter, from 100 to 107 (the bright backgrounds), on a
  console that is present and in its text state, whose attribute is a foreground from 0 to 15 with a background
  from 0 to 7: the attribute it passes to \<open>SetAttribute\<close> keeps the foreground and has 8 to 15 in the bits from
  4 on, so it sets bit 7, outside the bits 4 to 6 that the comment in the code gives the background.
\<close>

theorem sgr_bright_background:
  assumes "ansi_state s = ST_NORMAL" and "has_con_out s" and "current_colours s c" and "p \<in> {100..107}"
  shows "\<exists>t a. parse_bytes (csi_encode [Some p] 109) s = Ret () t \<and> ansi_state t = ST_NORMAL
     \<and> evs t = evs s @ [SetAttribute a] \<and> a = of_nat (foreground c + 16 * (p - 92)) \<and> bit a 7"
proof -
  have c: "colours_ok c" using assms(3) by (simp add: current_colours_def)
  have p: "\<forall>q \<in> set [Some p]. param_ok q" using assms(4) by simp
  have "bit (of_nat (foreground c + 16 * (p - 92)) :: u64) 7"
    using c assms(4) by (intro efi_attr_bit_7) (auto simp: colours_ok_def)
  with parse_sgr [OF assms(1,2) _ _ p assms(3)] sgr_attr_bright [OF c assms(4)]
  show ?thesis by (simp add: param_value_def)
qed

theorem sgr_bright_background_witness:
  "\<exists>t. parse_bytes (csi_encode [Some 104] 109) blank_uefi = Ret () t \<and> evs t = [SetAttribute 0xC7]"
proof -
  have c: "current_colours blank_uefi \<lparr>foreground = 7, background = 0\<rparr>"
    by (simp add: current_colours_def colours_ok_def efi_attr_def)
  show ?thesis using sgr_bright_background [OF _ _ c, of 104] by auto
qed

text \<open>
  C38 (error).  A colour sequence with nine or more parameters (fewer than 2^31 - 1, each missing or within
  a C \<open>int\<close>) makes the loop of \<open>ansi_exec\<close> read \<open>csi_params\<close> beyond its eight elements: \<open>csi_n\<close> counts
  every parameter although only eight are stored.
\<close>

theorem sgr_overflow:
  assumes "ansi_state s = ST_NORMAL" and "has_con_out s" and "9 \<le> length ps" and "length ps < 2147483647"
    and "\<forall>p \<in> set ps. param_ok p"
  shows "\<exists>t. parse_bytes (csi_encode ps 109) s = Stop Undefined t"
proof -
  have n: "int (length ps) < INT_MAX" and ne: "ps \<noteq> []" using assms(3,4) by auto
  have stop: "\<exists>i \<in> set is. \<not> i < 8 \<Longrightarrow> sgr_loop is b t = Stop Undefined t" for "is" b and t :: "'a uefi_scheme"
    by (induction "is" arbitrary: b) auto
  have "\<exists>i \<in> set [0..<length ps]. \<not> i < 8" using assms(3) by (intro bexI [of _ 8]) auto
  from stop [OF this] show ?thesis
    using assms(2) by (simp add: parse_csi [OF assms(1) ne assms(5) n] ansi_exec_def exec_in_csi [OF ne n] Let_def)
qed

theorem sgr_overflow_witness:
  "\<exists>t. parse_bytes (csi_encode (replicate 9 (Some 1)) 109) blank_uefi = Stop Undefined t"
  by (rule sgr_overflow) simp_all

text \<open>
  C25 (termination).  Terminal output whose control sequences have at most eight parameters of at
  most nine digits is processed to its end, without undefined behaviour, however the bytes mix
  text, complete, unknown and broken sequences.
\<close>

theorem tame_output_returns:
  assumes "ansi_state s = ST_NORMAL" and "tame ST_NORMAL 0 0 (mem_bytes (mem s) buf (unat len))"
  shows "\<exists>t. uefi_console_write buf len s = Ret () t"
  unfolding uefi_console_write_eq
  by (rule parse_bytes_tame [OF assms(2)]) (simp add: tame_state_def assms(1))

theorem tame_output_returns_witness:
  "\<exists>t. uefi_console_write 0 5 (blank_uefi\<lparr>mem := mem_put (\<lambda>_. 0) 0 [0x1B, 91, 59, 52, 109]\<rparr>) = Ret () t"
proof (rule tame_output_returns)
  have "length ([0x1B, 91, 59, 52, 109] :: bytes) = 5" by simp
  then have "mem_bytes (mem_put (\<lambda>_. 0) 0 [0x1B, 91, 59, 52, 109]) 0 5 = [0x1B, 91, 59, 52, 109]"
    using mem_bytes_put [of "[0x1B, 91, 59, 52, 109]" "\<lambda>_. 0" 0] by (simp del: list.size)
  then show "tame ST_NORMAL 0 0 (mem_bytes (mem (blank_uefi\<lparr>mem := mem_put (\<lambda>_. 0) 0 [0x1B, 91, 59, 52, 109]\<rparr>)) 0 (unat (5 :: u64)))"
    by simp
qed simp

text \<open>
  C20 (type).  Whatever bytes are written to the console, and even where the model stops with undefined
  behaviour, the static variables of the parser keep the ranges they start with: \<open>csi_params\<close> has
  eight elements from -1 to the largest C \<open>int\<close>, \<open>csi_n\<close> and \<open>csi_cur\<close> are from 0 to the largest \<open>int\<close>; and
  every cursor position that is passed to the firmware has both coordinates below 2^31 - 1, never a
  negative number converted to 64 bits.
\<close>

theorem parser_types_kept:
  assumes "length (csi_params s) = 8" and "\<forall>v \<in> set (csi_params s). -1 \<le> v \<and> v \<le> INT_MAX"
    and "int (csi_n s) \<le> INT_MAX" and "0 \<le> csi_cur s" and "csi_cur s \<le> INT_MAX"
    and "list_all cursor_in_range (evs s)"
    and "uefi_console_write buf len s = Ret () t \<or> uefi_console_write buf len s = Stop r t"
  shows "length (csi_params t) = 8 \<and> (\<forall>v \<in> set (csi_params t). -1 \<le> v \<and> v \<le> INT_MAX)
     \<and> int (csi_n t) \<le> INT_MAX \<and> 0 \<le> csi_cur t \<and> csi_cur t \<le> INT_MAX
     \<and> list_all cursor_in_range (evs t)"
proof -
  have "parser_typed s" using assms(1-6) by (simp add: parser_typed_def parser_vars_def)
  then have "ends parser_typed (uefi_console_write buf len s)"
    unfolding uefi_console_write_eq by (intro ends_forO byte_typed)
  with assms(7) have "parser_typed t" by auto
  then show ?thesis by (simp add: parser_typed_def parser_vars_def)
qed

theorem parser_types_kept_witness:
  "case uefi_console_write 0x2000 300 blank_uefi of Ret x t \<Rightarrow> length (csi_params t) = 8
     | Stop r t \<Rightarrow> length (csi_params t) = 8"
proof -
  have b: "csi_params blank_uefi = replicate 8 0" "csi_n blank_uefi = 0" "csi_cur blank_uefi = 0" "evs blank_uefi = []"
    by (simp_all add: blank_uefi_def blank_hw_def uefi.defs hw.defs)
  note keep = parser_types_kept [of blank_uefi "0x2000" 300, unfolded b]
  show ?thesis
  proof (cases "uefi_console_write 0x2000 300 blank_uefi")
    case (Ret x t)
    with keep [of t] show ?thesis by simp
  next
    case (Stop r t)
    with keep [of t r] show ?thesis by simp
  qed
qed

text \<open>
  (functional)  Text without escape bytes is printed byte for byte, one
  \<open>OutputString\<close> call each, LF as CR LF.
\<close>

theorem plain_text_output:
  assumes "ansi_state s = ST_NORMAL" and "has_con_out s" and "0x1B \<notin> set cs"
  shows "parse_bytes cs s = Ret () (s\<lparr>evs := evs s @ map text_event cs\<rparr>)"
  using assms by (rule plain_text)

theorem plain_text_output_witness:
  "parse_bytes [104, 105, 10] blank_uefi =
     Ret () (blank_uefi\<lparr>evs := [OutputString [104], OutputString [105], OutputString [13, 10]]\<rparr>)"
  using plain_text_output [of blank_uefi "[104, 105, 10]"] by (simp add: text_event_def)

text \<open>
  C22 (functional).  \<open>uefi_console_read\<close> with a keyboard present, no key kept from before and at least one key queued
  at the firmware returns the number of queued keys, up to the size of the buffer, and stores one
  byte for each, in order: LF for a key whose character is CR, and the low byte of the UCS-2 character
  for every other key.  Nothing else in memory changes, nothing is printed, and no key is kept back.
\<close>

theorem uefi_read_delivers:
  assumes "has_con_in s" and "\<not> pending_key_valid s"
    and "\<And>j. j < length ks \<Longrightarrow> key_in s (key_pos s + j) = (EFI_SUCCESS, Some (ks ! j))"
    and "ks \<noteq> []" and "length ks \<le> unat len"
    and "length ks = unat len \<or> fst (key_in s (key_pos s + length ks)) \<noteq> EFI_SUCCESS"
  shows "\<exists>t. uefi_console_read buf len s = Ret (of_nat (length ks)) t
     \<and> mem t = mem_put (mem s) buf (map (\<lambda>k. if UnicodeChar k = 13 then 10 else ucast (UnicodeChar k)) ks)
     \<and> evs t = evs s \<and> \<not> pending_key_valid t"
proof -
  obtain k ks' where ks: "ks = k # ks'" using assms(4) by (cases ks) auto
  have k: "key_in s (key_pos s) = (EFI_SUCCESS, Some k)" using assms(3) [of 0] ks by simp
  let ?s1 = "s\<lparr>key_pos := Suc (key_pos s), pending_key := k, pending_key_valid := False\<rparr>"
  let ?t = "store8 buf (key_byte k) ?s1"
  have "len \<noteq> 0" using assms(5) ks by auto
  moreover have "uefi_wait_key s = Some (s\<lparr>key_pos := Suc (key_pos s), pending_key := k\<rparr>)"
    unfolding uefi_wait_key_def by (subst spin.simps) (simp add: ReadKeyStroke_def k)
  ultimately have "uefi_console_read buf len s = uefi_read_loop buf len 1 ?t"
    using assms(1,2) by (simp add: uefi_console_read_def uefi_console_getc_def key_byte_def)
  moreover have "\<exists>t. uefi_read_loop buf len 1 ?t = Ret (1 + of_nat (length ks')) t
     \<and> mem t = mem_put (mem ?t) (buf + 1) (map key_byte ks') \<and> evs t = evs ?t \<and> \<not> pending_key_valid t"
  proof (rule uefi_read_loop_keys)
    show "key_in ?t (key_pos ?t + j) = (EFI_SUCCESS, Some (ks' ! j))" if "j < length ks'" for j
      using assms(3) [of "Suc j"] that ks by (simp add: store_def)
  qed (use assms ks in \<open>auto simp: store_def has_con_in_def\<close>)
  moreover have "mem_put (mem_put (mem s) buf [key_byte k]) (buf + of_nat (length [key_byte k])) (map key_byte ks') =
      mem_put (mem s) buf ([key_byte k] @ map key_byte ks')"
    using assms(5) unat_bound [of len] ks by (intro mem_put_append) simp
  ultimately have "\<exists>t. uefi_console_read buf len s = Ret (of_nat (length ks)) t
     \<and> mem t = mem_put (mem s) buf (map key_byte ks) \<and> evs t = evs s \<and> \<not> pending_key_valid t"
    by (simp add: ks store_def)
  moreover have "key_byte = (\<lambda>k. if UnicodeChar k = 13 then 10 else ucast (UnicodeChar k))"
    by (simp add: fun_eq_iff key_byte_eq)
  ultimately show ?thesis by simp
qed

theorem uefi_read_delivers_witness:
  "let s = blank_uefi\<lparr>key_in := (\<lambda>k. if k = 0 then (EFI_SUCCESS, Some \<lparr>ScanCode = 0, UnicodeChar = 104\<rparr>)
       else if k = 1 then (EFI_SUCCESS, Some \<lparr>ScanCode = 0, UnicodeChar = 13\<rparr>) else (EFI_NOT_READY, None))\<rparr>
   in \<exists>t. uefi_console_read 0x2000 16 s = Ret 2 t \<and> mem t = mem_put (mem s) 0x2000 [104, 10]"
proof -
  let ?s = "blank_uefi\<lparr>key_in := (\<lambda>k. if k = 0 then (EFI_SUCCESS, Some \<lparr>ScanCode = 0, UnicodeChar = 104\<rparr>)
       else if k = 1 then (EFI_SUCCESS, Some \<lparr>ScanCode = 0, UnicodeChar = 13\<rparr>) else (EFI_NOT_READY, None))\<rparr>"
  let ?ks = "[\<lparr>ScanCode = 0, UnicodeChar = 104\<rparr>, \<lparr>ScanCode = 0, UnicodeChar = 13\<rparr>]"
  have k: "key_pos ?s = 0" "has_con_in ?s" "\<not> pending_key_valid ?s"
    using has_con_in_def [of blank_uefi, simplified] by (simp_all add: has_con_in_def)
  have q: "key_in ?s (key_pos ?s + j) = (EFI_SUCCESS, Some (?ks ! j))" if "j < length ?ks" for j
    using that k(1) by (auto simp: less_Suc_eq)
  have "\<exists>t. uefi_console_read 0x2000 16 ?s = Ret (of_nat (length ?ks)) t
     \<and> mem t = mem_put (mem ?s) 0x2000 (map (\<lambda>k. if UnicodeChar k = 13 then 10 else ucast (UnicodeChar k)) ?ks)
     \<and> evs t = evs ?s \<and> \<not> pending_key_valid t"
    using k(1) by (intro uefi_read_delivers [OF k(2,3) q]) simp_all
  then show ?thesis by auto
qed

end
