(* ===== verification/Console.thy ===== *)
theory Console
  imports Serial Uefi_Console
begin

text \<open>
  kernel/console.h: the rest of the kernel calls \<open>serial_putc\<close>, \<open>serial_write\<close> and so on; in
  the UEFI build the header renames these calls to the functions of uefi\_console.c.  The model
  passes the chosen console as a record of operations.  The locale is the contract the callers
  rely on, and both drivers satisfy it.  kernel/panic.c is here because it only prints.
\<close>

record 's console =
  c_init :: "'s \<Rightarrow> 's"
  c_putc :: "u8 \<Rightarrow> 's \<Rightarrow> (unit, 's) outcome"
  c_puts :: "bytes \<Rightarrow> 's \<Rightarrow> (unit, 's) outcome"
  c_write :: "ptr \<Rightarrow> u64 \<Rightarrow> 's \<Rightarrow> (unit, 's) outcome"
  c_data_ready :: "'s \<Rightarrow> u32 \<times> 's"
  c_read :: "ptr \<Rightarrow> u64 \<Rightarrow> 's \<Rightarrow> (u64, 's) outcome"

definition serial_console :: "'a hw_scheme console" where
  "serial_console =
     \<lparr>c_init = serial_init, c_putc = (\<lambda>c s. Ret () (serial_putc c s)),
      c_puts = (\<lambda>cs s. Ret () (serial_puts cs s)),
      c_write = (\<lambda>p n s. Ret () (serial_write p n s)),
      c_data_ready = serial_data_ready, c_read = serial_read\<rparr>"

definition uefi_console :: "'a uefi_scheme console" where
  "uefi_console =
     \<lparr>c_init = uefi_console_init, c_putc = uefi_console_putc, c_puts = uefi_console_puts,
      c_write = uefi_console_write, c_data_ready = uefi_console_data_ready,
      c_read = uefi_console_read\<rparr>"

text \<open>kernel/panic.c: print the message and halt; it never returns, so its result has any type.\<close>

definition panic :: "'s console \<Rightarrow> bytes \<Rightarrow> 's \<Rightarrow> ('r, 's) outcome" where
  "panic con msg s =
     andThen (c_puts con (ascii ''panic: '') s) (\<lambda>_ s1.
     andThen (c_puts con msg s1) (\<lambda>_ s2.
     andThen (c_puts con [10] s2) (\<lambda>_ s3. Stop Halted s3)))"

lemma serial_console_simps [simp]:
  "c_init serial_console = serial_init" "c_putc serial_console c s = Ret () (serial_putc c s)"
  "c_puts serial_console cs s = Ret () (serial_puts cs s)"
  "c_write serial_console p n s = Ret () (serial_write p n s)"
  "c_data_ready serial_console = serial_data_ready" "c_read serial_console = serial_read"
  by (simp_all add: serial_console_def)

lemma uefi_console_simps [simp]:
  "c_init uefi_console = uefi_console_init" "c_putc uefi_console = uefi_console_putc"
  "c_puts uefi_console = uefi_console_puts" "c_write uefi_console = uefi_console_write"
  "c_data_ready uefi_console = uefi_console_data_ready" "c_read uefi_console = uefi_console_read"
  by (simp_all add: uefi_console_def)

lemma panic_stops: "\<exists>x t. (panic con msg s :: ('r, 's) outcome) = Stop x t"
  unfolding panic_def by (intro andThen_stops) simp

lemma panic_serial: "panic serial_console msg s = Stop Halted (s\<lparr>evs := evs s @ com1 (ascii ''panic: '' @ msg @ [10])\<rparr>)"
  by (simp add: panic_def serial_puts_eq del: ascii_simps)

section \<open>The contract\<close>

text \<open>
  Output changes neither memory nor the state of the components above the console
  (\<open>uefi.more\<close>, everything the other source files keep); input stores at most \<open>len\<close> bytes, into
  the buffer only.
\<close>

definition quiet :: "'a uefi_scheme \<Rightarrow> 'a uefi_scheme \<Rightarrow> bool" where
  "quiet s t \<longleftrightarrow> mem t = mem s \<and> uefi.more t = uefi.more s"

definition fills :: "ptr \<Rightarrow> nat \<Rightarrow> 'a uefi_scheme \<Rightarrow> 'a uefi_scheme \<Rightarrow> bool" where
  "fills buf n s t \<longleftrightarrow> uefi.more t = uefi.more s \<and> (\<forall>a. \<not> in_region buf n a \<longrightarrow> mem t a = mem s a)"

lemma quiet_refl [simp]: "quiet s s" by (simp add: quiet_def)
lemma quiet_trans: "quiet s t \<Longrightarrow> quiet t u \<Longrightarrow> quiet s u" by (simp add: quiet_def)
lemma quiet_fills: "quiet s t \<Longrightarrow> fills buf n s t" by (simp add: quiet_def fills_def)
lemma fills_trans: "fills buf n s t \<Longrightarrow> fills buf n t u \<Longrightarrow> fills buf n s u"
  by (simp add: fills_def)

locale console_contract =
  fixes con :: "'a uefi_scheme console"
  assumes init_quiet: "quiet s (c_init con s)"
    and putc_ends: "ends (quiet s) (c_putc con c s)"
    and puts_ends: "ends (quiet s) (c_puts con cs s)"
    and write_ends: "ends (quiet s) (c_write con buf len s)"
    and ready_quiet: "quiet s (snd (c_data_ready con s))"
    and read_fills: "post (\<lambda>n t. n \<le> len \<and> fills buf (unat len) s t) (c_read con buf len s)"
begin

lemmas putc_quiet = putc_ends [THEN ends_post]
lemmas puts_quiet = puts_ends [THEN ends_post]
lemmas write_quiet = write_ends [THEN ends_post]

lemma panic_ends: "ends (quiet s) (panic con msg s)"
proof -
  have puts: "ends (quiet s) (c_puts con cs t)" if "quiet s t" for cs t
    by (rule ends_mono [OF puts_ends]) (rule quiet_trans [OF that])
  show ?thesis
    unfolding panic_def by (intro ends_andThen puts) simp_all
qed

end

text \<open>The polled serial line.\<close>

interpretation serial_con: console_contract serial_console
proof unfold_locales
  fix buf :: ptr and len :: u64 and s :: "'a uefi_scheme"
  show "post (\<lambda>n t. n \<le> len \<and> fills buf (unat len) s t) (c_read serial_console buf len s)"
  proof (cases "len = 0 \<or> (\<forall>d. \<not> rx_ready s (polls s + d))")
    case True
    then show ?thesis
      using serial_read_spins [of len s buf] by (cases "len = 0") (auto simp: serial_read_def quiet_fills)
  next
    case False
    then have ne: "len \<noteq> 0" and ex: "\<exists>d. rx_ready s (polls s + d)" by auto
    define d where "d = (LEAST d. rx_ready s (polls s + d))"
    have d: "rx_ready s (polls s + d)" unfolding d_def by (rule LeastI_ex [OF ex])
    have nd: "\<not> rx_ready s (polls s + j)" if "j < d" for j
      using not_less_Least [of j "\<lambda>d. rx_ready s (polls s + d)"] that by (simp add: d_def)
    let ?k = "burst (polled (Suc d) s) (unat len - 1)"
    have "0 < unat len" using ne by (simp add: unat_gt_0)
    then have le: "Suc ?k \<le> unat len"
      using burst_le [of "polled (Suc d) s" "unat len - 1"] by linarith
    then have "of_nat (Suc ?k) \<le> len"
      using unat_bound [of len] by (simp add: word_le_nat_alt unat_of_nat del: of_nat_Suc)
    moreover have "fills buf (unat len) s (taken n buf (incoming s (Suc ?k)) s)" for n
      using le by (auto simp: fills_def in_region_def mem_put_def taken_def)
    moreover have "serial_read buf len s = Ret (of_nat (Suc ?k))
        (taken (Suc d + (if ?k = unat len - 1 then unat len - 1 else Suc ?k)) buf (incoming s (Suc ?k)) s)"
      using ne d nd by (rule serial_read_ready)
    ultimately show ?thesis by simp
  qed
qed (simp_all add: quiet_def state_eqs serial_data_ready_eq polled_def serial_init_def outb_def emit_def)

text \<open>The UEFI console.\<close>

lemma ansi_push_param_quiet: "ends (quiet s) (ansi_push_param s)"
  by (simp add: ansi_push_param_def Let_def quiet_def)

lemma sgr_loop_quiet: "quiet s t \<Longrightarrow> ends (quiet s) (sgr_loop is a t)"
  by (induction "is" arbitrary: a) auto

lemma ansi_exec_quiet: "ends (quiet s) (ansi_exec f s)"
  unfolding ansi_exec_def
proof (rule ends_andThen [OF ansi_push_param_quiet])
  fix x :: unit and t
  assume q: "quiet s t"
  then have q': "quiet s (t\<lparr>attr_pos := n\<rparr>)" "quiet s (emit e t)" for n e
    by (simp_all add: quiet_def emit_def)
  have "ends (quiet s) (andThen (sgr_loop is a (t\<lparr>attr_pos := n\<rparr>)) (\<lambda>attr s. Ret () (emit (SetAttribute attr) s)))" for "is" a n
    by (rule ends_andThen [OF sgr_loop_quiet [OF q'(1)]]) (simp add: quiet_def emit_def)
  with q q' show "ends (quiet s) (if \<not> has_con_out t then Ret () t
       else if f = 72 \<or> f = 102 then
         (let row = (if csi_n t \<ge> 1 \<and> csi_params t ! 0 > 0 then csi_params t ! 0 else 1);
              col = (if csi_n t \<ge> 2 \<and> csi_params t ! 1 > 0 then csi_params t ! 1 else 1)
          in Ret () (emit (SetCursorPosition (of_int (col - 1)) (of_int (row - 1))) t))
       else if f = 74 then
         (let n = (if csi_n t \<ge> 1 \<and> csi_params t ! 0 \<ge> 0 then csi_params t ! 0 else 0)
          in Ret () (if n = 2 then emit ClearScreen t else t))
       else if f = 109 then
         (let attr = (case attr_in t (attr_pos t) of Some a \<Rightarrow> scast a | None \<Rightarrow> 0x07);
              s1 = t\<lparr>attr_pos := Suc (attr_pos t)\<rparr>
          in andThen (sgr_loop [0..<csi_n t] attr s1) (\<lambda>attr s. Ret () (emit (SetAttribute attr) s)))
       else Ret () t)"
    by (simp add: Let_def)
qed

lemma parse_byte_quiet: "ends (quiet s) (parse_byte c s)"
proof -
  have "ends (quiet s) (andThen (ansi_exec f s) (\<lambda>_ s. Ret () (s\<lparr>ansi_state := ST_NORMAL\<rparr>)))" for f
    by (rule ends_andThen [OF ansi_exec_quiet]) (simp add: quiet_def)
  moreover have "quiet s (raw_putc d s)" "quiet s ((ansi_reset s)\<lparr>ansi_state := m\<rparr>)"
      "quiet s (s\<lparr>ansi_state := m\<rparr>)" "quiet s (s\<lparr>csi_cur := v, csi_seen_digit := b\<rparr>)" for d m v b
    by (simp_all add: raw_putc_def ansi_reset_def quiet_def emit_def)
  ultimately show ?thesis
    by (simp add: parse_byte_def Let_def ansi_push_param_quiet split: ansi_mode.split)
qed

lemma parse_bytes_quiet: "ends (quiet s) (forO parse_byte cs s)"
proof (rule ends_forO)
  show "ends (quiet s) (parse_byte c t)" if "quiet s t" for c t
    by (rule ends_mono [OF parse_byte_quiet]) (rule quiet_trans [OF that])
qed simp

lemma uefi_data_ready_quiet: "quiet s (snd (uefi_console_data_ready s))"
  by (auto simp add: uefi_console_data_ready_def ReadKeyStroke_def quiet_def split: prod.split)

lemma uefi_getc_quiet: "post (\<lambda>_. quiet s) (uefi_console_getc s)"
proof -
  have ReadKey: "quiet s (snd (ReadKeyStroke s))" for s :: "'a uefi_scheme"
    by (simp add: ReadKeyStroke_def quiet_def split: prod.split)
  have tries: "quiet s (tries f n s)" if "\<And>s. quiet s (snd (f s))" for n f and s :: "'a uefi_scheme"
    using that by (induction n arbitrary: s) (auto intro: quiet_trans)
  have "quiet s t" if w: "uefi_wait_key s = Some t" for t
  proof -
    let ?f = "\<lambda>s. case ReadKeyStroke s of (status, s1) \<Rightarrow> (status \<noteq> EFI_NOT_READY, s1)"
    have f: "quiet u (snd (?f u))" for u :: "'a uefi_scheme" using ReadKey [of u] by (simp add: case_prod_beta)
    obtain d where "spin ?f s = Some (tries ?f (Suc d) s)"
      using spin_returns [of ?f s t] w unfolding uefi_wait_key_def by blast
    with w tries [of ?f s "Suc d", OF f] show ?thesis by (simp add: uefi_wait_key_def)
  qed
  then have w: "quiet s (t\<lparr>pending_key_valid := False\<rparr>)" if "uefi_wait_key s = Some t" for t
    using that by (simp add: quiet_def)
  have "quiet s (s\<lparr>pending_key_valid := False\<rparr>)" by (simp add: quiet_def)
  with w show ?thesis
    by (cases "uefi_wait_key s") (simp_all add: uefi_console_getc_def)
qed

lemma uefi_read_loop_fills:
  "i \<le> len \<Longrightarrow> fills buf (unat len) s0 s \<Longrightarrow>
     post (\<lambda>n t. n \<le> len \<and> fills buf (unat len) s0 t) (uefi_read_loop buf len i s)"
proof (induction buf len i s rule: uefi_read_loop.induct)
  case (1 buf len i s)
  obtain r s1 where r: "uefi_console_data_ready s = (r, s1)" by fastforce
  then have q: "quiet s s1" using uefi_data_ready_quiet [of s] by simp
  show ?case
  proof (cases "i < len \<and> r \<noteq> 0")
    case False
    have "fills buf (unat len) s0 s1" using "1.prems"(2) quiet_fills [OF q] by (rule fills_trans)
    with False r "1.prems" show ?thesis by (auto simp: uefi_read_loop.simps [of buf len i s])
  next
    case True
    show ?thesis
    proof (cases "uefi_console_getc s1")
      case (Ret c s2)
      then have q2: "quiet s s2" using uefi_getc_quiet [of s1] quiet_trans [OF q] by simp
      have lt: "unat i < unat len" using True by (simp add: word_less_nat_alt)
      then have le: "i + 1 \<le> len" using True by (simp add: word_le_nat_alt unat_add_1 [of i len])
      have "fills buf (unat len) s0 (store8 (buf + i) (ucast c) s2)"
        using "1.prems"(2) q2 lt
        by (auto simp: fills_def quiet_def store_def mem_put_def in_region_def unat_eq_0)
      with "1.IH" [OF _ r [symmetric] _ Ret le] True
      have "post (\<lambda>n t. n \<le> len \<and> fills buf (unat len) s0 t)
          (uefi_read_loop buf len (i + 1) (store8 (buf + i) (ucast c) s2))" by simp
      with True r Ret show ?thesis by (simp add: uefi_read_loop.simps [of buf len i s])
    next
      case (Stop x t)
      with True r show ?thesis by (simp add: uefi_read_loop.simps [of buf len i s])
    qed
  qed
qed

lemma uefi_console_init_quiet: "quiet s (uefi_console_init s)"
  by (simp add: uefi_console_init_def ansi_reset_def emit_def quiet_def)

interpretation uefi_con: console_contract uefi_console
proof unfold_locales
  fix buf :: ptr and len :: u64 and s :: "'a uefi_scheme"
  have "post (\<lambda>n t. n \<le> len \<and> fills buf (unat len) s t)
      (andThen (uefi_console_getc s) (\<lambda>c s1. uefi_read_loop buf len 1 (store8 buf (ucast c) s1)))" if "len \<noteq> 0"
  proof (rule post_andThen [OF uefi_getc_quiet])
    fix c s1 assume "quiet s s1"
    moreover have "0 < unat len" using that by (simp add: unat_gt_0)
    ultimately have "fills buf (unat len) s (store8 buf (ucast c) s1)"
      by (auto simp: fills_def quiet_def store_def mem_put_def in_region_def)
    moreover have "1 \<le> len" using \<open>0 < unat len\<close> by (simp add: word_le_nat_alt)
    ultimately show "post (\<lambda>n t. n \<le> len \<and> fills buf (unat len) s t) (uefi_read_loop buf len 1 (store8 buf (ucast c) s1))"
      by (intro uefi_read_loop_fills)
  qed
  then show "post (\<lambda>n t. n \<le> len \<and> fills buf (unat len) s t) (c_read uefi_console buf len s)"
    by (simp add: uefi_console_read_def quiet_fills)
qed (simp_all add: uefi_console_putc_def uefi_console_puts_def uefi_console_write_eq parse_byte_quiet
       parse_bytes_quiet uefi_data_ready_quiet uefi_console_init_quiet)

end
