(* ===== verification/Timer.thy ===== *)
theory Timer
  imports Console
begin

text \<open>
  kernel/timer.c: the time stamp counter is calibrated against channel 2 of the interval timer
  at boot, and read as milliseconds since then.
\<close>

section \<open>Model\<close>

record timer = uefi +
  tsc_freq_khz :: u64
  boot_tsc :: u64

abbreviation pit_count :: u16 where "pit_count \<equiv> 59659"

text \<open>One round of \<open>while (!(inb(0x61) & 0x20)) ;\<close>\<close>

definition pit_expired :: "'a hw_scheme \<Rightarrow> bool \<times> 'a hw_scheme" where
  "pit_expired s = (case inb 0x61 s of (b, s1) \<Rightarrow> (b AND 0x20 \<noteq> 0, s1))"

definition timer_init :: "'a timer_scheme \<Rightarrow> (unit, 'a timer_scheme) outcome" where
  "timer_init s0 =
     (case inb 0x61 s0 of (b, s1) \<Rightarrow>
      let s2 = outb 0x61 ((b AND 0xFD) OR 0x01) s1;
          s3 = outb 0x43 0xB0 s2;
          s4 = outb 0x42 (ucast (pit_count AND 0xFF)) s3;
          s5 = outb 0x42 (ucast (drop_bit 8 pit_count)) s4
      in case rdtsc s5 of (start_tsc, s6) \<Rightarrow>
         case spin pit_expired s6 of
           None \<Rightarrow> Stop Spinning s6
         | Some s7 \<Rightarrow>
             case rdtsc s7 of (end_tsc, s8) \<Rightarrow>
             let elapsed = end_tsc - start_tsc;
                 f = elapsed div 50;
                 s9 = s8\<lparr>tsc_freq_khz := (if f = 0 then 1 else f)\<rparr>
             in case rdtsc s9 of (boot, s10) \<Rightarrow> Ret () (s10\<lparr>boot_tsc := boot\<rparr>))"

definition ruby_on_bare_metal_clock_millis :: "'a timer_scheme \<Rightarrow> u64 \<times> 'a timer_scheme" where
  "ruby_on_bare_metal_clock_millis s =
     (if tsc_freq_khz s = 0 then (0, s)
      else case rdtsc s of (now, s1) \<Rightarrow> ((now - boot_tsc s) div tsc_freq_khz s, s1))"

section \<open>Lemmas\<close>

text \<open>Whether the k-th read of port 0x61 shows the timer's output high.\<close>

definition pit_high :: "'a hw_scheme \<Rightarrow> nat \<Rightarrow> bool" where
  "pit_high s k \<longleftrightarrow> port_in s 0x61 k AND 0x20 \<noteq> 0"

lemma pit_expired_eq:
  "pit_expired s = (pit_high s (port_pos s 0x61), s\<lparr>port_pos := (port_pos s)(0x61 := Suc (port_pos s 0x61))\<rparr>)"
  by (simp add: pit_expired_def inb_def pit_high_def)

lemma pit_tries: "tries pit_expired d s = s\<lparr>port_pos := (port_pos s)(0x61 := port_pos s 0x61 + d)\<rparr>"
  by (induction d arbitrary: s) (simp_all add: pit_expired_eq)

lemma pit_expired_tries: "fst (pit_expired (tries pit_expired d s)) \<longleftrightarrow> pit_high s (port_pos s 0x61 + d)"
  by (simp add: pit_tries pit_expired_eq) (simp add: pit_high_def)

lemma clock_eq:
  "ruby_on_bare_metal_clock_millis s =
     (if tsc_freq_khz s = 0 then (0, s)
      else ((tsc_in s (tsc_pos s) - boot_tsc s) div tsc_freq_khz s, s\<lparr>tsc_pos := Suc (tsc_pos s)\<rparr>))"
  by (simp add: ruby_on_bare_metal_clock_millis_def rdtsc_value)

lemma clock_frame:
  "mem (snd (ruby_on_bare_metal_clock_millis s)) = mem s"
  "timer.more (snd (ruby_on_bare_metal_clock_millis s)) = timer.more s"
  "evs (snd (ruby_on_bare_metal_clock_millis s)) = evs s"
  "tsc_freq_khz (snd (ruby_on_bare_metal_clock_millis s)) = tsc_freq_khz s"
  "boot_tsc (snd (ruby_on_bare_metal_clock_millis s)) = boot_tsc s"
  by (simp_all add: clock_eq)

lemma timer_init_result:
  assumes "pit_high s (Suc (port_pos s 0x61) + d)" and "\<And>j. j < d \<Longrightarrow> \<not> pit_high s (Suc (port_pos s 0x61) + j)"
  shows "\<exists>t. timer_init s = Ret () t
     \<and> evs t = evs s @ [Outb 0x61 ((port_in s 0x61 (port_pos s 0x61) AND 0xFD) OR 1), Outb 0x43 0xB0,
                        Outb 0x42 0x0B, Outb 0x42 0xE9]
     \<and> unat (tsc_freq_khz t) = max 1 (unat (tsc_in s (Suc (tsc_pos s)) - tsc_in s (tsc_pos s)) div 50)
     \<and> boot_tsc t = tsc_in s (tsc_pos s + 2) \<and> timer.more t = timer.more s"
proof -
  define s6 where "s6 = s\<lparr>port_pos := (port_pos s)(0x61 := Suc (port_pos s 0x61)),
     evs := evs s @ [Outb 0x61 ((port_in s 0x61 (port_pos s 0x61) AND 0xFD) OR 1), Outb 0x43 0xB0,
                     Outb 0x42 (ucast (pit_count AND 0xFF)), Outb 0x42 (ucast (drop_bit 8 pit_count))],
     tsc_pos := Suc (tsc_pos s)\<rparr>"
  have high: "pit_high s6 = pit_high s" "port_pos s6 0x61 = Suc (port_pos s 0x61)"
    by (simp_all add: s6_def pit_high_def fun_eq_iff)
  have "spin pit_expired s6 = Some (tries pit_expired (Suc d) s6)"
    by (rule spin_Some) (use assms in \<open>simp_all only: pit_expired_tries high\<close>, simp_all)
  then have sp: "spin pit_expired s6 = Some (s6\<lparr>port_pos := (port_pos s6)(0x61 := port_pos s6 0x61 + Suc d)\<rparr>)"
    by (simp only: pit_tries)
  have init: "timer_init s = (case spin pit_expired s6 of
        None \<Rightarrow> Stop Spinning s6
      | Some s7 \<Rightarrow> let f = (tsc_in s7 (tsc_pos s7) - tsc_in s (tsc_pos s)) div 50
          in Ret () (s7\<lparr>tsc_freq_khz := (if f = 0 then 1 else f), boot_tsc := tsc_in s7 (Suc (tsc_pos s7)),
                tsc_pos := tsc_pos s7 + 2\<rparr>))"
    by (simp add: timer_init_def inb_def outb_def emit_def Let_def rdtsc_value s6_def split: option.split)
  have count: "(ucast (pit_count AND 0xFF) :: u8) = 0x0B" "(ucast (drop_bit 8 pit_count) :: u8) = 0xE9"
    by code_simp+
  have "unat (if f = 0 then 1 else f) = max 1 (unat f)" for f :: u64
    by (auto simp: unat_gt_0 max_def unat_eq_0 Suc_le_eq)
  then show ?thesis
    unfolding init sp by (simp add: Let_def unat_div_distrib s6_def count)
qed

text \<open>What calibration leaves alone, whether or not the interval timer ever runs out.\<close>

definition timer_frame :: "'a timer_scheme \<Rightarrow> 'a timer_scheme \<Rightarrow> bool" where
  "timer_frame s t \<longleftrightarrow> mem t = mem s \<and> sys_table t = sys_table s \<and> con_out t = con_out s
     \<and> ansi_state t = ansi_state s \<and> timer.more t = timer.more s"

lemma timer_init_frame: "ends (timer_frame s) (timer_init s)"
proof -
  have "timer_frame s t" if sp: "spin pit_expired u = Some t" and u: "timer_frame s u" for t u
  proof -
    obtain d where "t = tries pit_expired (Suc d) u" using spin_returns [OF sp] sp by auto
    then show ?thesis using u by (simp add: pit_tries timer_frame_def del: tries.simps)
  qed
  then show ?thesis
    by (auto simp: timer_init_def inb_def Let_def rdtsc_value outb_def emit_def timer_frame_def split: option.split)
qed

section \<open>Properties\<close>

text \<open>
  C35 (termination).  When the interval timer runs out at some poll, calibration programs
  channel 2 with the count (low byte first, after the mode byte), measures the counter before
  and after the wait, and leaves a frequency of elapsed ticks per millisecond, at least one.
\<close>

theorem timer_init_calibrates:
  assumes "pit_high s (Suc (port_pos s 0x61) + d)" and "\<And>j. j < d \<Longrightarrow> \<not> pit_high s (Suc (port_pos s 0x61) + j)"
  shows "\<exists>t. timer_init s = Ret () t
     \<and> evs t = evs s @ [Outb 0x61 ((port_in s 0x61 (port_pos s 0x61) AND 0xFD) OR 1), Outb 0x43 0xB0,
                        Outb 0x42 0x0B, Outb 0x42 0xE9]
     \<and> unat (tsc_freq_khz t) = max 1 (unat (tsc_in s (Suc (tsc_pos s)) - tsc_in s (tsc_pos s)) div 50)
     \<and> boot_tsc t = tsc_in s (tsc_pos s + 2) \<and> timer.more t = timer.more s"
  using timer_init_result [OF assms] .

definition ticking :: timer where
  "ticking = (uefi.extend blank_uefi \<lparr>tsc_freq_khz = 0, boot_tsc = 0\<rparr>)
     \<lparr>port_in := (\<lambda>p k. if k = 2 then 0x20 else 0), tsc_in := (\<lambda>k. of_nat (150000 * k))\<rparr>"

lemma ticking_simps:
  "port_in ticking = (\<lambda>p k. if k = 2 then 0x20 else 0)" "tsc_in ticking = (\<lambda>k. of_nat (150000 * k))"
  "port_pos ticking p = 0" "tsc_pos ticking = 0" "evs ticking = []"
  by (simp_all add: ticking_def uefi.defs blank_uefi_def blank_hw_def hw.defs)

theorem timer_init_calibrates_witness:
  "\<exists>t. timer_init ticking = Ret () t \<and> unat (tsc_freq_khz t) = 3000
     \<and> evs t = [Outb 0x61 1, Outb 0x43 0xB0, Outb 0x42 0x0B, Outb 0x42 0xE9]"
proof -
  have "pit_high ticking (Suc (port_pos ticking 0x61) + 1)"
    "\<not> pit_high ticking (Suc (port_pos ticking 0x61) + j)" if "j < 1" for j
    using that by (simp_all add: pit_high_def ticking_simps)
  from timer_init_calibrates [OF this] show ?thesis
    by (auto simp: ticking_simps)
qed

text \<open>
  (functional)  The clock counts whole milliseconds since calibration: with \<open>f\<close> ticks per
  millisecond and \<open>e\<close> ticks since boot the answer \<open>ms\<close> satisfies \<open>ms * f \<le> e < (ms + 1) * f\<close>,
  across any wrap-around of the 64-bit counter, and a later reading is never smaller.
\<close>

theorem clock_counts_millis:
  assumes "tsc_freq_khz s \<noteq> 0" and "ruby_on_bare_metal_clock_millis s = (ms, t)"
    and "ruby_on_bare_metal_clock_millis t = (ms', u)"
    and "unat (tsc_in s (tsc_pos s) - boot_tsc s) \<le> unat (tsc_in s (Suc (tsc_pos s)) - boot_tsc s)"
  shows "unat ms * unat (tsc_freq_khz s) \<le> unat (tsc_in s (tsc_pos s) - boot_tsc s)
     \<and> unat (tsc_in s (tsc_pos s) - boot_tsc s) < Suc (unat ms) * unat (tsc_freq_khz s)
     \<and> ms \<le> ms'"
proof -
  let ?f = "unat (tsc_freq_khz s)" and ?e = "unat (tsc_in s (tsc_pos s) - boot_tsc s)"
  have f: "0 < ?f" using assms(1) by (simp add: unat_gt_0)
  have ms: "unat ms = ?e div ?f" and t: "t = s\<lparr>tsc_pos := Suc (tsc_pos s)\<rparr>"
    using assms(1,2) by (auto simp: clock_eq unat_div_distrib)
  have "unat ms' = unat (tsc_in s (Suc (tsc_pos s)) - boot_tsc s) div ?f"
    using assms(1,3) t by (auto simp: clock_eq unat_div_distrib)
  then have "ms \<le> ms'" using assms(4) by (simp add: word_le_nat_alt ms div_le_mono)
  moreover have "?e div ?f * ?f \<le> ?e" "?e < Suc (?e div ?f) * ?f"
    using f div_mult_mod_eq [of ?e ?f] by (simp_all add: dividend_less_div_times)
  ultimately show ?thesis by (simp only: ms)
qed

theorem clock_counts_millis_witness:
  "let s = ticking\<lparr>tsc_freq_khz := 3000, tsc_pos := 4, boot_tsc := 450001\<rparr>;
       (ms, t) = ruby_on_bare_metal_clock_millis s;
       (ms', u) = ruby_on_bare_metal_clock_millis t
   in ms = 49 \<and> unat ms * 3000 \<le> 149999 \<and> ms \<le> ms'"
proof -
  let ?s = "ticking\<lparr>tsc_freq_khz := 3000, tsc_pos := 4, boot_tsc := 450001\<rparr>"
  have a: "ruby_on_bare_metal_clock_millis ?s = (49, ?s\<lparr>tsc_pos := 5\<rparr>)"
    "ruby_on_bare_metal_clock_millis (?s\<lparr>tsc_pos := 5\<rparr>) = (99, ?s\<lparr>tsc_pos := 6\<rparr>)"
    by (simp_all add: clock_eq ticking_simps)
  have "unat (49 :: u64) * 3000 \<le> 149999 \<and> (49 :: u64) \<le> 99"
    using clock_counts_millis [OF _ a] by (simp add: ticking_simps)
  with a show ?thesis by simp
qed

end
