(* ===== verification/Bump.thy ===== *)
theory Bump
  imports Prelude
begin

text \<open>
  The contract shared by the three allocators of the kernel (memory.c, the malloc override
  and the mmap emulation): memory is handed out upwards from a growing mark and never taken
  back.  The locale states what one allocation promises; proved once from it, any sequence
  of allocations returns blocks that lie below the limit, in increasing order and pairwise
  disjoint, and leaves the contents of what was handed out before alone.
\<close>

section \<open>Sequences of allocations\<close>

text \<open>
  Requests served one after the other: the blocks obtained (address and size) and the final
  state; a request that fails is skipped and changes nothing.
\<close>

fun run_allocs ::
  "('r \<Rightarrow> 's \<Rightarrow> (ptr \<times> 's) option) \<Rightarrow> ('r \<Rightarrow> nat) \<Rightarrow> 'r list \<Rightarrow> 's \<Rightarrow> (ptr \<times> nat) list \<times> 's" where
  "run_allocs alloc sz [] s = ([], s)"
| "run_allocs alloc sz (r # rs) s =
     (case alloc r s of
        None \<Rightarrow> run_allocs alloc sz rs s
      | Some (p, t) \<Rightarrow> (case run_allocs alloc sz rs t of (bs, u) \<Rightarrow> ((p, sz r) # bs, u)))"

definition apart :: "(ptr \<times> nat) list \<Rightarrow> bool" where
  "apart = sorted_wrt (\<lambda>(p, n) (q, m). unat p + n \<le> unat q)"

definition within :: "nat \<Rightarrow> nat \<Rightarrow> (ptr \<times> nat) list \<Rightarrow> bool" where
  "within lo hi bs \<longleftrightarrow> (\<forall>(p, n) \<in> set bs. lo \<le> unat p \<and> unat p + n \<le> hi)"

lemma apart_simps [simp]:
  "apart []" "apart ((p, n) # bs) \<longleftrightarrow> (\<forall>(q, m) \<in> set bs. unat p + n \<le> unat q) \<and> apart bs"
  by (auto simp: apart_def)

lemma within_simps [simp]:
  "within lo hi []" "within lo hi ((p, n) # bs) \<longleftrightarrow> lo \<le> unat p \<and> unat p + n \<le> hi \<and> within lo hi bs"
  by (auto simp: within_def)

lemma within_mono: "within lo hi bs \<Longrightarrow> lo' \<le> lo \<Longrightarrow> hi \<le> hi' \<Longrightarrow> within lo' hi' bs"
  by (fastforce simp: within_def)

text \<open>Blocks that are apart share no address.\<close>

lemma apart_disjoint:
  assumes "apart bs" and "i < j" and "j < length bs" and "bs ! i = (p, n)" and "bs ! j = (q, m)"
    and "unat q + m \<le> 2 ^ 64" and "in_region p n a"
  shows "\<not> in_region q m a"
proof -
  have le: "unat p + n \<le> unat q"
    using assms(1-5) sorted_wrt_nth_less [of _ bs i j] unfolding apart_def by fastforce
  then have "unat p + n \<le> 2 ^ 64" using assms(6) by simp
  with le assms(6,7) show ?thesis by (auto simp: in_region_iff)
qed

section \<open>The contract\<close>

locale bump_allocator =
  fixes alloc :: "'r \<Rightarrow> 's \<Rightarrow> (ptr \<times> 's) option"
    and sz :: "'r \<Rightarrow> nat"
    and ok :: "'r \<Rightarrow> bool"
    and inv :: "'s \<Rightarrow> bool"
    and mark :: "'s \<Rightarrow> nat"
    and limit :: nat
    and memory_of :: "'s \<Rightarrow> memory"
  assumes alloc_inv: "inv s \<Longrightarrow> ok r \<Longrightarrow> alloc r s = Some (p, t) \<Longrightarrow> inv t"
    and alloc_block: "inv s \<Longrightarrow> ok r \<Longrightarrow> alloc r s = Some (p, t) \<Longrightarrow> mark s \<le> unat p \<and> unat p + sz r \<le> mark t"
    and mark_limit: "inv s \<Longrightarrow> mark s \<le> limit"
    and alloc_frame: "inv s \<Longrightarrow> ok r \<Longrightarrow> alloc r s = Some (p, t) \<Longrightarrow>
      unat a < mark s \<or> mark t \<le> unat a \<Longrightarrow> memory_of t a = memory_of s a"
begin

lemma run_allocs_inv:
  assumes "inv s" and "\<forall>r \<in> set rs. ok r" and "run_allocs alloc sz rs s = (bs, t)"
  shows "inv t \<and> mark s \<le> mark t"
  using assms
proof (induction rs arbitrary: s bs)
  case (Cons r rs)
  show ?case
  proof (cases "alloc r s")
    case None
    with Cons show ?thesis by simp
  next
    case (Some x)
    obtain p u where x: "x = (p, u)" by fastforce
    with Some Cons.prems have "inv u" "mark s \<le> mark u"
      using alloc_inv [of s r p u] alloc_block [of s r p u] by auto
    moreover obtain cs where "run_allocs alloc sz rs u = (cs, t)"
      using Cons.prems(3) Some x by (auto split: prod.splits)
    ultimately show ?thesis using Cons.IH [of u cs] Cons.prems(2) by auto
  qed
qed simp

lemma run_allocs_blocks:
  assumes "inv s" and "\<forall>r \<in> set rs. ok r" and "run_allocs alloc sz rs s = (bs, t)"
  shows "apart bs \<and> within (mark s) (mark t) bs"
  using assms
proof (induction rs arbitrary: s bs)
  case (Cons r rs)
  show ?case
  proof (cases "alloc r s")
    case None
    with Cons show ?thesis by simp
  next
    case (Some x)
    obtain p u where x: "x = (p, u)" by fastforce
    have u: "inv u" "mark s \<le> unat p" "unat p + sz r \<le> mark u"
      using alloc_inv [of s r p u] alloc_block [of s r p u] Some x Cons.prems by auto
    obtain cs where cs: "run_allocs alloc sz rs u = (cs, t)" "bs = (p, sz r) # cs"
      using Cons.prems(3) Some x by (auto split: prod.splits)
    have IH: "apart cs" "within (mark u) (mark t) cs" using Cons.IH [OF u(1) _ cs(1)] Cons.prems(2) by auto
    have "mark u \<le> mark t" using run_allocs_inv [OF u(1) _ cs(1)] Cons.prems(2) by auto
    moreover have "\<forall>(q, m) \<in> set cs. unat p + sz r \<le> unat q"
      using IH(2) u(3) by (fastforce simp: within_def)
    moreover have "within (mark s) (mark t) cs"
      using IH(2) u(2,3) by (elim within_mono) auto
    ultimately show ?thesis using IH(1) u cs(2) by auto
  qed
qed simp

lemma run_allocs_limit:
  assumes "inv s" and "\<forall>r \<in> set rs. ok r" and "run_allocs alloc sz rs s = (bs, t)"
  shows "apart bs" and "within (mark s) limit bs"
  using run_allocs_blocks [OF assms] run_allocs_inv [OF assms] mark_limit
  by (auto elim: within_mono)

lemma run_allocs_frame:
  assumes "inv s" and "\<forall>r \<in> set rs. ok r" and "run_allocs alloc sz rs s = (bs, t)"
    and "unat a < mark s \<or> mark t \<le> unat a"
  shows "memory_of t a = memory_of s a"
  using assms
proof (induction rs arbitrary: s bs)
  case (Cons r rs)
  show ?case
  proof (cases "alloc r s")
    case None
    with Cons show ?thesis by simp
  next
    case (Some x)
    obtain p u where x: "x = (p, u)" by fastforce
    have u: "inv u" "mark s \<le> mark u"
      using alloc_inv [of s r p u] alloc_block [of s r p u] Some x Cons.prems by auto
    obtain cs where cs: "run_allocs alloc sz rs u = (cs, t)"
      using Cons.prems(3) Some x by (auto split: prod.splits)
    have "mark u \<le> mark t" using run_allocs_inv [OF u(1) _ cs(1)] Cons.prems(2) by auto
    with u have "memory_of t a = memory_of u a" using Cons.IH [OF u(1) _ cs(1)] Cons.prems(2,4) by auto
    also have "\<dots> = memory_of s a"
      using alloc_frame [of s r p u a] Some x Cons.prems \<open>mark u \<le> mark t\<close> by auto
    finally show ?thesis .
  qed
qed simp

end

end
