(* ===== verification/Kernel_Heap.thy ===== *)
theory Kernel_Heap
  imports Timer Bump
begin

text \<open>
  kernel/memory.c: the kernel's own bump allocator over a static array of one mebibyte.  The
  address of the array is chosen by the linker, a parameter here.
\<close>

section \<open>Model\<close>

record kheap = timer +
  heap_offset :: u64

abbreviation KHEAP_SIZE :: u64 where "KHEAP_SIZE \<equiv> 1024 * 1024"

definition memory_init :: "'a kheap_scheme \<Rightarrow> 'a kheap_scheme" where
  "memory_init s = s\<lparr>heap_offset := 0\<rparr>"

definition ruby_on_bare_metal_alloc ::
  "'a kheap_scheme console \<Rightarrow> ptr \<Rightarrow> u64 \<Rightarrow> 'a kheap_scheme \<Rightarrow> (ptr, 'a kheap_scheme) outcome" where
  "ruby_on_bare_metal_alloc con heap size0 s =
     (let sz = (size0 + 7) AND NOT 7
      in if heap_offset s + sz > KHEAP_SIZE then panic con (ascii ''out of heap'') s
         else Ret (heap + heap_offset s) (s\<lparr>heap_offset := heap_offset s + sz\<rparr>))"

definition ruby_on_bare_metal_free :: "ptr \<Rightarrow> 'a kheap_scheme \<Rightarrow> 'a kheap_scheme" where
  "ruby_on_bare_metal_free p s = s"

section \<open>The allocator contract\<close>

definition kheap_ok :: "u64 \<Rightarrow> bool" where
  "kheap_ok n \<longleftrightarrow> unat n \<le> 2 ^ 63"

text \<open>Where the linker may put an array of \<open>n\<close> bytes: below the end of the address space.\<close>

definition heap_place :: "nat \<Rightarrow> ptr \<Rightarrow> bool" where
  "heap_place n heap \<longleftrightarrow> unat heap + n < 2 ^ 64"

definition kheap_inv :: "ptr \<Rightarrow> 'a kheap_scheme \<Rightarrow> bool" where
  "kheap_inv heap s \<longleftrightarrow> heap_place (2 ^ 20) heap \<and> heap_offset s \<le> KHEAP_SIZE"

lemma mask_3: "(7 :: u64) = mask 3" by (simp add: mask_eq_exp_minus_1)

lemma kheap_size: "kheap_ok n \<Longrightarrow> unat ((n + 7) AND NOT 7 :: u64) = round_up 8 (unat n)"
  unfolding mask_3 using unat_align [of n 3] by (simp add: kheap_ok_def)

lemma kheap_alloc_eq:
  assumes "kheap_ok n" and "kheap_inv heap s"
  shows "ruby_on_bare_metal_alloc con heap n s =
     (if unat (heap_offset s) + round_up 8 (unat n) \<le> 2 ^ 20
      then Ret (heap + heap_offset s) (s\<lparr>heap_offset := of_nat (unat (heap_offset s) + round_up 8 (unat n))\<rparr>)
      else panic con (ascii ''out of heap'') s)"
proof -
  let ?sz = "(n + 7) AND NOT 7 :: u64"
  have off: "unat (heap_offset s) \<le> 2 ^ 20" using assms(2) by (simp add: kheap_inv_def word_le_nat_alt)
  have "round_up 8 (unat n) < 2 ^ 63 + 8" using round_up_props(2) [of 8 "unat n"] assms(1) by (simp add: kheap_ok_def)
  then have sum: "unat (heap_offset s + ?sz) = unat (heap_offset s) + round_up 8 (unat n)"
    using off kheap_size [OF assms(1)] by (simp add: unat_word_ariths)
  have "heap_offset s + ?sz = of_nat (unat (heap_offset s) + round_up 8 (unat n))"
    unfolding sum [symmetric] by simp
  moreover have "(heap_offset s + ?sz > KHEAP_SIZE) = (\<not> unat (heap_offset s) + round_up 8 (unat n) \<le> 2 ^ 20)"
    unfolding word_less_nat_alt sum by (simp add: not_le)
  ultimately show ?thesis by (simp add: ruby_on_bare_metal_alloc_def Let_def)
qed

lemma panic_returned [simp]: "returned (panic con msg s :: ('a, 'b) outcome) = None"
proof -
  obtain r t where "panic con msg s = (Stop r t :: ('a, 'b) outcome)" using panic_stops [where 'r = 'a, of con msg s] by blast
  then show ?thesis by simp
qed

interpretation kernel_heap: bump_allocator
  "\<lambda>n s. returned (ruby_on_bare_metal_alloc con heap n s)" unat kheap_ok "kheap_inv heap"
  "\<lambda>s. unat heap + unat (heap_offset s)" "unat heap + 2 ^ 20" mem
proof unfold_locales
  fix s t :: "'a kheap_scheme" and r :: u64 and p :: ptr and a :: ptr
  assume inv: "kheap_inv heap s" and ok: "kheap_ok r"
    and al: "returned (ruby_on_bare_metal_alloc con heap r s) = Some (p, t)"
  then have le: "unat (heap_offset s) + round_up 8 (unat r) \<le> 2 ^ 20" and pl: "heap_place (2 ^ 20) heap"
    and p: "p = heap + heap_offset s" and t: "t = s\<lparr>heap_offset := of_nat (unat (heap_offset s) + round_up 8 (unat r))\<rparr>"
    by (auto simp: kheap_alloc_eq kheap_inv_def split: if_splits)
  have off: "unat (heap_offset t) = unat (heap_offset s) + round_up 8 (unat r)"
    using le by (simp add: t unat_of_nat del: of_nat_add)
  show "kheap_inv heap t" using le off pl by (simp add: kheap_inv_def word_le_nat_alt)
  have "unat p = unat heap + unat (heap_offset s)"
    using le pl by (simp add: p unat_word_ariths heap_place_def)
  then show "unat heap + unat (heap_offset s) \<le> unat p \<and> unat p + unat r \<le> unat heap + unat (heap_offset t)"
    using round_up_props(1) [of 8 "unat r"] by (simp add: off)
  show "mem t a = mem s a" by (simp add: t)
next
  show "unat heap + unat (heap_offset s) \<le> unat heap + 2 ^ 20" if "kheap_inv heap s" for s :: "'a kheap_scheme"
    using that by (simp add: kheap_inv_def word_le_nat_alt)
qed

section \<open>Properties\<close>

definition blank_kheap :: kheap where
  "blank_kheap = uefi.extend blank_uefi \<lparr>tsc_freq_khz = 1000, boot_tsc = 0, heap_offset = 0\<rparr>"

lemma blank_kheap_simps [simp]:
  "heap_offset blank_kheap = 0" "evs blank_kheap = []"
  by (simp_all add: blank_kheap_def uefi.defs blank_uefi_def blank_hw_def hw.defs)

text \<open>
  C15 (invariant).  Whatever sizes up to 2^63 are requested, in whatever order, the blocks the
  kernel heap hands out lie inside its array, above everything handed out before, and no two of
  them overlap; a request that does not fit is not served.
\<close>

theorem kernel_heap_blocks:
  assumes "kheap_inv heap s" and "\<forall>n \<in> set ns. unat n \<le> 2 ^ 63"
    and "run_allocs (\<lambda>n s. returned (ruby_on_bare_metal_alloc con heap n s)) unat ns s = (bs, t)"
  shows "apart bs \<and> within (unat heap + unat (heap_offset s)) (unat heap + 2 ^ 20) bs"
  using kernel_heap.run_allocs_limit [OF assms(1) _ assms(3)] assms(2) by (simp add: kheap_ok_def)

theorem kernel_heap_blocks_witness:
  "let bs = fst (run_allocs (\<lambda>n s. returned (ruby_on_bare_metal_alloc serial_console 0x300000 n s)) unat
       [100, 2000000, 8] blank_kheap)
   in apart bs \<and> within 0x300000 0x400000 bs"
proof -
  obtain bs t where "run_allocs (\<lambda>n s. returned (ruby_on_bare_metal_alloc serial_console 0x300000 n s)) unat
      [100, 2000000, 8] blank_kheap = (bs, t)" by fastforce
  from kernel_heap_blocks [OF _ _ this] this show ?thesis
    by (simp add: kheap_inv_def heap_place_def Let_def)
qed

text \<open>
  (error)  A request that does not fit prints \<open>panic: out of heap\<close> on the serial line and
  halts: nothing is returned to the caller.
\<close>

theorem kernel_heap_exhausted:
  assumes "kheap_inv heap s" and "unat n \<le> 2 ^ 63" and "2 ^ 20 < unat (heap_offset s) + round_up 8 (unat n)"
  shows "ruby_on_bare_metal_alloc serial_console heap n s =
     Stop Halted (s\<lparr>evs := evs s @ com1 (ascii ''panic: out of heap'' @ [10])\<rparr>)"
  using assms by (simp add: kheap_alloc_eq kheap_ok_def panic_serial)

theorem kernel_heap_exhausted_witness:
  "ruby_on_bare_metal_alloc serial_console 0x300000 2000000 blank_kheap =
     Stop Halted (blank_kheap\<lparr>evs := com1 (ascii ''panic: out of heap'' @ [10])\<rparr>)"
  using kernel_heap_exhausted [of "0x300000" blank_kheap 2000000] round_up_props(1) [of 8 2000000]
  by (simp add: kheap_inv_def heap_place_def del: ascii_simps)

text \<open>
  (error)  The size check is done after an addition that can wrap: a request for
  2^64 - 8 bytes succeeds and moves the mark back by eight, so that the next block overlaps
  the previous one.
\<close>

theorem kernel_heap_wraps:
  assumes "8 \<le> heap_offset s" and "heap_offset s \<le> KHEAP_SIZE"
  shows "ruby_on_bare_metal_alloc con heap (- 8) s = Ret (heap + heap_offset s) (s\<lparr>heap_offset := heap_offset s - 8\<rparr>)"
proof -
  have "(- 8 + 7 :: u64) AND NOT 7 = - 8" by simp
  moreover have "\<not> heap_offset s - 8 > KHEAP_SIZE"
    using assms by (simp add: word_le_nat_alt word_less_nat_alt unat_sub)
  ultimately show ?thesis by (simp add: ruby_on_bare_metal_alloc_def)
qed

theorem kernel_heap_wraps_witness:
  "ruby_on_bare_metal_alloc serial_console 0x300000 (- 8) (blank_kheap\<lparr>heap_offset := 64\<rparr>) =
     Ret 0x300040 (blank_kheap\<lparr>heap_offset := 56\<rparr>)"
  using kernel_heap_wraps [of "blank_kheap\<lparr>heap_offset := 64\<rparr>" serial_console "0x300000"] by simp

end
