(* ===== verification/Embedded_Files.thy ===== *)
theory Embedded_Files
  imports Prelude
begin

text \<open>
  kernel/embedded\_files.c: the read-only files linked into the kernel.  The two tables
  (\<open>generated_files\<close>, \<open>mui_files\<close>) are generated by the build, so they are parameters: lists of
  entries up to the terminating NULL path.  A C string is the list of its bytes before the NUL;
  reading its end gives the NUL.  A path pointer may be NULL, which is \<open>None\<close>.
\<close>

section \<open>Model\<close>

record embedded_file =
  ef_path :: bytes
  ef_data :: ptr
  ef_size :: u64

record file_tables =
  generated_files :: "embedded_file list"
  mui_files :: "embedded_file list"

definition char_at :: "bytes \<Rightarrow> u8" where
  "char_at cs = (case cs of [] \<Rightarrow> 0 | c # _ \<Rightarrow> c)"

fun streq :: "bytes \<Rightarrow> bytes \<Rightarrow> bool" where
  "streq (a # as) (b # bs) =
     (if a \<noteq> 0 \<and> b \<noteq> 0 \<and> a = b then streq as bs else a = 0 \<and> b = 0)"
| "streq as bs = (char_at as = 0 \<and> char_at bs = 0)"

fun starts_with :: "bytes \<Rightarrow> bytes \<Rightarrow> bool" where
  "starts_with str [] = True"
| "starts_with str (q # qs) =
     (if q = 0 then True else if char_at str \<noteq> q then False else starts_with (tl str) qs)"

text \<open>The scan of one table, as each of the functions below does it twice.\<close>

primrec table_has :: "bytes \<Rightarrow> embedded_file list \<Rightarrow> bool" where
  "table_has path [] = False"
| "table_has path (f # fs) = (if streq path (ef_path f) then True else table_has path fs)"

primrec table_find :: "bytes \<Rightarrow> embedded_file list \<Rightarrow> embedded_file option" where
  "table_find path [] = None"
| "table_find path (f # fs) = (if streq path (ef_path f) then Some f else table_find path fs)"

definition ruby_on_bare_metal_file_exists :: "file_tables \<Rightarrow> bytes option \<Rightarrow> bool" where
  "ruby_on_bare_metal_file_exists ft path =
     (case path of
        None \<Rightarrow> False
      | Some p \<Rightarrow> if table_has p (generated_files ft) then True
                  else if table_has p (mui_files ft) then True
                  else False)"

text \<open>The data pointer, and the value of \<open>*size\<close> afterwards (\<open>size0\<close> before).\<close>

definition ruby_on_bare_metal_embedded_file_data ::
  "file_tables \<Rightarrow> bytes option \<Rightarrow> u64 \<Rightarrow> ptr \<times> u64" where
  "ruby_on_bare_metal_embedded_file_data ft path size0 =
     (case path of
        None \<Rightarrow> (0, size0)
      | Some p \<Rightarrow>
          (case table_find p (generated_files ft) of
             Some f \<Rightarrow> (ef_data f, ef_size f)
           | None \<Rightarrow>
               (case table_find p (mui_files ft) of
                  Some f \<Rightarrow> (ef_data f, ef_size f)
                | None \<Rightarrow> (0, size0))))"

primrec list_table ::
  "bytes \<Rightarrow> (bytes \<Rightarrow> u64 \<Rightarrow> 's \<Rightarrow> 's) \<Rightarrow> embedded_file list \<Rightarrow> nat \<times> 's \<Rightarrow> nat \<times> 's" where
  "list_table prefix callback [] cs = cs"
| "list_table prefix callback (f # fs) cs =
     list_table prefix callback fs
       (if starts_with (ef_path f) prefix
        then (Suc (fst cs), callback (ef_path f) (ef_size f) (snd cs)) else cs)"

definition ruby_on_bare_metal_list_files ::
  "file_tables \<Rightarrow> bytes \<Rightarrow> (bytes \<Rightarrow> u64 \<Rightarrow> 's \<Rightarrow> 's) \<Rightarrow> 's \<Rightarrow> nat \<times> 's" where
  "ruby_on_bare_metal_list_files ft prefix callback s =
     list_table prefix callback (mui_files ft)
       (list_table prefix callback (generated_files ft) (0, s))"

section \<open>Lemmas\<close>

text \<open>On C strings, which contain no NUL, the comparison is equality and the test is a prefix test.\<close>

definition cstring :: "bytes \<Rightarrow> bool" where
  "cstring cs \<longleftrightarrow> 0 \<notin> set cs"

lemma streq_iff: "cstring as \<Longrightarrow> cstring bs \<Longrightarrow> streq as bs \<longleftrightarrow> as = bs"
  by (induction as bs rule: streq.induct) (auto simp: cstring_def char_at_def split: list.splits)

lemma starts_with_iff:
  "cstring str \<Longrightarrow> cstring qs \<Longrightarrow> starts_with str qs \<longleftrightarrow> (\<exists>rest. str = qs @ rest)"
proof (induction str qs rule: starts_with.induct)
  case (2 str q qs)
  then show ?case by (cases str) (auto simp: cstring_def char_at_def)
qed simp

definition tables_ok :: "file_tables \<Rightarrow> bool" where
  "tables_ok ft \<longleftrightarrow>
     (\<forall>f \<in> set (generated_files ft) \<union> set (mui_files ft). cstring (ef_path f) \<and> ef_data f \<noteq> 0)"

text \<open>The files as a finite map, earlier entries first.\<close>

definition files_map :: "file_tables \<Rightarrow> bytes \<Rightarrow> (ptr \<times> u64) option" where
  "files_map ft = map_of (map (\<lambda>f. (ef_path f, (ef_data f, ef_size f))) (generated_files ft @ mui_files ft))"

lemma table_find_map_of:
  "cstring p \<Longrightarrow> \<forall>f \<in> set fs. cstring (ef_path f) \<Longrightarrow>
     map_option (\<lambda>f. (ef_data f, ef_size f)) (table_find p fs) =
     map_of (map (\<lambda>f. (ef_path f, (ef_data f, ef_size f))) fs) p"
  by (induction fs) (auto simp: streq_iff)

lemma table_has_find: "table_has p fs \<longleftrightarrow> table_find p fs \<noteq> None"
  by (induction fs) auto

lemma table_find_in: "table_find p fs = Some f \<Longrightarrow> f \<in> set fs"
  by (induction fs) (auto split: if_splits)

lemma file_data_eq:
  assumes "tables_ok ft" and "cstring p"
  shows "ruby_on_bare_metal_embedded_file_data ft (Some p) size0 =
     (case files_map ft p of Some x \<Rightarrow> x | None \<Rightarrow> (0, size0))"
proof -
  have g: "map_option (\<lambda>f. (ef_data f, ef_size f)) (table_find p (generated_files ft)) =
        map_of (map (\<lambda>f. (ef_path f, (ef_data f, ef_size f))) (generated_files ft)) p"
    and m: "map_option (\<lambda>f. (ef_data f, ef_size f)) (table_find p (mui_files ft)) =
        map_of (map (\<lambda>f. (ef_path f, (ef_data f, ef_size f))) (mui_files ft)) p"
    using assms by (auto simp: tables_ok_def intro!: table_find_map_of)
  have "files_map ft p = (case map_option (\<lambda>f. (ef_data f, ef_size f)) (table_find p (generated_files ft)) of
      None \<Rightarrow> map_option (\<lambda>f. (ef_data f, ef_size f)) (table_find p (mui_files ft)) | Some x \<Rightarrow> Some x)"
    unfolding g m by (simp add: files_map_def map_add_def)
  then show ?thesis
    by (simp add: ruby_on_bare_metal_embedded_file_data_def split: option.split)
qed

lemma files_map_data: "tables_ok ft \<Longrightarrow> files_map ft p = Some (d, n) \<Longrightarrow> d \<noteq> 0"
  by (auto simp: files_map_def tables_ok_def dest!: map_of_SomeD)

lemma file_exists_eq:
  assumes "tables_ok ft" and "cstring p"
  shows "ruby_on_bare_metal_file_exists ft (Some p) \<longleftrightarrow> files_map ft p \<noteq> None"
proof -
  have "table_has p fs \<longleftrightarrow> map_of (map (\<lambda>f. (ef_path f, (ef_data f, ef_size f))) fs) p \<noteq> None"
    if "\<forall>f \<in> set fs. cstring (ef_path f)" for fs
    unfolding table_find_map_of [OF assms(2) that, symmetric] by (simp add: table_has_find)
  then show ?thesis using assms(1)
    by (auto simp: ruby_on_bare_metal_file_exists_def files_map_def map_add_def tables_ok_def
          split: option.splits)
qed

lemma list_table_eq:
  "list_table prefix cb fs (n, s) =
     (let ms = filter (\<lambda>f. starts_with (ef_path f) prefix) fs
      in (n + length ms, fold (\<lambda>f. cb (ef_path f) (ef_size f)) ms s))"
  by (induction fs arbitrary: n s) (auto simp: Let_def)

section \<open>Properties\<close>

text \<open>
  C23 (refinement).  The two tables behave as one read-only map from paths to file contents:
  looking a path up gives the map's entry (the first table wins), a missing path gives NULL and
  leaves the caller's size alone, the existence test agrees with the lookup and a found file
  never has a NULL pointer.
\<close>

theorem embedded_files_refine_map:
  assumes "tables_ok ft" and "cstring p"
  shows "ruby_on_bare_metal_embedded_file_data ft (Some p) size0 =
       (case files_map ft p of Some x \<Rightarrow> x | None \<Rightarrow> (0, size0))
     \<and> (ruby_on_bare_metal_file_exists ft (Some p) \<longleftrightarrow> p \<in> dom (files_map ft))
     \<and> (ruby_on_bare_metal_file_exists ft (Some p) \<longleftrightarrow>
          fst (ruby_on_bare_metal_embedded_file_data ft (Some p) size0) \<noteq> 0)"
  using file_data_eq [OF assms, of size0] file_exists_eq [OF assms] files_map_data [OF assms(1), of p]
  by (auto simp: dom_def split: option.splits)

definition two_tables :: file_tables where
  "two_tables =
     \<lparr>generated_files = [\<lparr>ef_path = ascii ''/init.rb'', ef_data = 0x500000, ef_size = 26\<rparr>],
      mui_files = [\<lparr>ef_path = ascii ''/lib/mui.rb'', ef_data = 0x500100, ef_size = 90\<rparr>,
                   \<lparr>ef_path = ascii ''/init.rb'', ef_data = 0x500200, ef_size = 5\<rparr>]\<rparr>"

lemma two_tables_ok: "tables_ok two_tables" "cstring (ascii ''/init.rb'')"
  by (simp_all add: two_tables_def tables_ok_def cstring_def)

theorem embedded_files_refine_map_witness:
  "ruby_on_bare_metal_embedded_file_data two_tables (Some (ascii ''/init.rb'')) 0 = (0x500000, 26)
   \<and> ruby_on_bare_metal_file_exists two_tables (Some (ascii ''/init.rb''))"
  using embedded_files_refine_map [OF two_tables_ok, of 0]
  by (simp add: files_map_def two_tables_def)

text \<open>
  (functional)  Listing calls the callback once for every file whose path begins with the
  prefix, in table order, and returns their number.
\<close>

theorem list_files_selects_prefix:
  assumes "tables_ok ft" and "cstring prefix"
  shows "ruby_on_bare_metal_list_files ft prefix cb s =
     (let ms = filter (\<lambda>f. take (length prefix) (ef_path f) = prefix) (generated_files ft @ mui_files ft)
      in (length ms, fold (\<lambda>f. cb (ef_path f) (ef_size f)) ms s))"
proof -
  have "starts_with (ef_path f) prefix \<longleftrightarrow> take (length prefix) (ef_path f) = prefix"
    if "f \<in> set (generated_files ft) \<union> set (mui_files ft)" for f
  proof -
    have "(\<exists>rest. cs = prefix @ rest) \<longleftrightarrow> take (length prefix) cs = prefix" for cs :: bytes
      by (metis append_eq_conv_conj)
    then show ?thesis using that assms by (auto simp: starts_with_iff tables_ok_def)
  qed
  then have "filter (\<lambda>f. starts_with (ef_path f) prefix) fs = filter (\<lambda>f. take (length prefix) (ef_path f) = prefix) fs"
    if "set fs \<subseteq> set (generated_files ft) \<union> set (mui_files ft)" for fs
    using that by (intro filter_cong) auto
  then show ?thesis
    by (simp add: ruby_on_bare_metal_list_files_def list_table_eq Let_def)
qed

theorem list_files_selects_prefix_witness:
  "ruby_on_bare_metal_list_files two_tables (ascii ''/lib'') (\<lambda>p n c. c + n) 1 = (1, 91)"
  by (subst list_files_selects_prefix) (simp_all add: two_tables_def tables_ok_def cstring_def Let_def)

end
