(* ===== verification/Sys_State.thy ===== *)
theory Sys_State
  imports Kernel_Heap Embedded_Files
begin

text \<open>
  The state of the system call layer, compat/ruby\_on\_bare\_metal\_syscall.c (file descriptor
  table and mmap mark), the Linux x86-64 constants it takes from musl's headers, and its number
  printing.  System calls return a C \<open>long\<close>, a 64-bit word; errors are negated error numbers.
\<close>

section \<open>Constants of the ABI\<close>

abbreviation (input) ENOENT :: u64 where "ENOENT \<equiv> 2"
abbreviation (input) EBADF :: u64 where "EBADF \<equiv> 9"
abbreviation (input) ECHILD :: u64 where "ECHILD \<equiv> 10"
abbreviation (input) ENOMEM :: u64 where "ENOMEM \<equiv> 12"
abbreviation (input) EINVAL :: u64 where "EINVAL \<equiv> 22"
abbreviation (input) EMFILE :: u64 where "EMFILE \<equiv> 24"
abbreviation (input) ENOTTY :: u64 where "ENOTTY \<equiv> 25"
abbreviation (input) EROFS :: u64 where "EROFS \<equiv> 30"
abbreviation (input) ENOSYS :: u64 where "ENOSYS \<equiv> 38"

text \<open>\<open>struct stat\<close> of musl on x86-64: its size and the offsets of the fields the code sets.\<close>

abbreviation (input) sizeof_stat :: u64 where "sizeof_stat \<equiv> 144"
abbreviation (input) off_st_mode :: u64 where "off_st_mode \<equiv> 24"
abbreviation (input) off_st_rdev :: u64 where "off_st_rdev \<equiv> 40"
abbreviation (input) off_st_size :: u64 where "off_st_size \<equiv> 48"

abbreviation (input) MMAP_BASE :: u64 where "MMAP_BASE \<equiv> 0x10000000"
abbreviation (input) MMAP_LIMIT :: u64 where "MMAP_LIMIT \<equiv> 0x1F000000"
abbreviation (input) MAX_FD :: nat where "MAX_FD \<equiv> 64"

section \<open>State\<close>

record fd_entry =
  fe_used :: bool
  fe_data :: ptr
  fe_size :: u64
  fe_offset :: u64

record sys = kheap +
  fd_table :: "fd_entry list"
  mmap_next :: u64
  syscall_trace :: int

text \<open>What the build links in: the console and the generated file tables.\<close>

record 's build =
  b_con :: "'s console"
  b_files :: file_tables

definition closed_fd :: fd_entry where
  "closed_fd = \<lparr>fe_used = False, fe_data = 0, fe_size = 0, fe_offset = 0\<rparr>"

definition initial_fds :: "fd_entry list" where
  "initial_fds = replicate 3 \<lparr>fe_used = True, fe_data = 0, fe_size = 0, fe_offset = 0\<rparr> @ replicate 61 closed_fd"

text \<open>C conversions: \<open>(int)\<close> of a \<open>long\<close>, and the signed value of a \<open>long\<close>.\<close>

definition c_int :: "u64 \<Rightarrow> int" where
  "c_int a = sint (ucast a :: u32)"

section \<open>Printing a number\<close>

text \<open>\<open>while (num > 0 && i < 19) { buf[i++] = '0' + (num % 10); num /= 10; }\<close>\<close>

function digits_loop :: "int \<Rightarrow> bytes \<Rightarrow> bytes" where
  "digits_loop num buf =
     (if num > 0 \<and> length buf < 19
      then digits_loop (num div 10) (buf @ [of_int (48 + num mod 10)])
      else buf)"
  by pat_completeness auto
termination
  by (relation "measure (\<lambda>(num, buf). nat num)") auto

declare digits_loop.simps [simp del]

definition print_long :: "'s console \<Rightarrow> u64 \<Rightarrow> 's \<Rightarrow> (unit, 's) outcome" where
  "print_long con n s =
     (let num = sint n
      in andThen (if num < 0 then c_putc con 45 s else Ret () s) (\<lambda>_ s1.
         if num = - (2 ^ 63) then Stop Undefined s1
         else let num' = \<bar>num\<bar>;
                  buf = digits_loop num' (if num' = 0 then [48] else [])
              in andThen (forO (c_putc con) (rev buf) s1) (\<lambda>_ s2. c_putc con 10 s2)))"

definition ruby_on_bare_metal_log_unhandled :: "'s console \<Rightarrow> u64 \<Rightarrow> 's \<Rightarrow> (u64, 's) outcome" where
  "ruby_on_bare_metal_log_unhandled con n s =
     andThen (c_puts con (ascii ''syscall: unhandled #'') s) (\<lambda>_ s1.
     andThen (print_long con n s1) (\<lambda>_ s2. Ret (- ENOSYS) s2))"

section \<open>Lemmas\<close>

lemma digits_loop_decimal:
  "0 < n \<Longrightarrow> n < 10 ^ (19 - length buf) \<Longrightarrow> length buf \<le> 19 \<Longrightarrow>
     digits_loop (int n) buf = buf @ rev (decimal n)"
proof (induction n arbitrary: buf rule: decimal.induct)
  case (1 n)
  have lt: "length buf < 19"
  proof (rule ccontr)
    assume "\<not> length buf < 19"
    with 1 show False by simp
  qed
  have d: "(of_int (48 + int n mod 10) :: u8) = of_nat (48 + n mod 10)"
    by (metis of_int_of_nat_eq of_nat_add of_nat_mod of_nat_numeral)
  show ?case
  proof (cases "n < 10")
    case True
    then have "int n div 10 = 0" "int n mod 10 = int n" by simp_all
    then have "digits_loop (int n) buf = buf @ [of_nat (48 + n)]"
      using lt 1(2) d True by (subst digits_loop.simps) (simp add: digits_loop.simps [of 0])
    with True show ?thesis by (simp add: decimal.simps [of n])
  next
    case False
    have e: "19 - length buf = Suc (19 - length (buf @ [x]))" for x :: u8 using lt by simp
    have "n div 10 < 10 ^ (19 - length (buf @ [x]))" for x :: u8
      using 1(3) unfolding e [of x] by (simp add: less_mult_imp_div_less mult.commute)
    then have "digits_loop (int (n div 10)) (buf @ [x]) = (buf @ [x]) @ rev (decimal (n div 10))" for x
      using False lt by (intro 1(1)) auto
    moreover have "digits_loop (int n) buf = digits_loop (int (n div 10)) (buf @ [of_nat (48 + n mod 10)])"
      using lt 1(2) d by (subst digits_loop.simps) (simp add: zdiv_int del: of_nat_add)
    ultimately show ?thesis using False by (simp add: decimal.simps [of n] del: of_nat_add)
  qed
qed

text \<open>The decimal text of a signed number.\<close>

definition signed_decimal :: "int \<Rightarrow> bytes" where
  "signed_decimal v = (if v < 0 then [45] else []) @ decimal (nat \<bar>v\<bar>)"

lemma number_buf:
  assumes "v < 10 ^ 19"
  shows "rev (digits_loop (int v) (if int v = 0 then [48] else [])) = decimal v"
proof (cases "v = 0")
  case True
  then show ?thesis by (simp add: digits_loop.simps [of 0] decimal.simps [of 0])
next
  case False
  then show ?thesis using assms digits_loop_decimal [of v "[]"] by simp
qed

lemma forO_serial_putc:
  "forO (c_putc serial_console) cs s = Ret () (s\<lparr>evs := evs s @ com1 cs\<rparr>)"
proof (induction cs arbitrary: s)
  case (Cons c cs)
  then show ?case using com1_simps(2) [of "[c]" cs] by (simp add: serial_putc_eq)
qed simp

lemma print_long_serial:
  assumes "sint n \<noteq> - (2 ^ 63)"
  shows "print_long serial_console n s = Ret () (s\<lparr>evs := evs s @ com1 (signed_decimal (sint n) @ [10])\<rparr>)"
proof -
  define v where "v = nat \<bar>sint n\<bar>"
  have v: "\<bar>sint n\<bar> = int v" by (simp add: v_def)
  have "v < 10 ^ 19" using sint_lt [of n] sint_ge [of n] unfolding v_def by simp
  note buf = number_buf [OF this]
  show ?thesis
    unfolding print_long_def Let_def v buf using assms
    by (simp add: serial_putc_eq forO_serial_putc signed_decimal_def v_def [symmetric])
qed

lemma not_least_long: "n \<noteq> (0x8000000000000000 :: u64) \<Longrightarrow> sint n \<noteq> - (2 ^ 63)"
proof
  assume n: "n \<noteq> (0x8000000000000000 :: u64)" and "sint n = - (2 ^ 63)"
  then have "(word_of_int (sint n) :: u64) = word_of_int (sint (0x8000000000000000 :: u64))" by simp
  then show False using n by (simp only: of_int_sint scast_id)
qed

text \<open>The same on the UEFI console, in its text state.\<close>

lemma decimal_no_escape: "0x1B \<notin> set (decimal v)"
proof (induction v rule: decimal.induct)
  case (1 v)
  have "(of_nat (48 + d) :: u8) \<noteq> 0x1B" if "d < 10" for d
  proof -
    have "unat (of_nat (48 + d) :: u8) = 48 + d" using that by (simp add: unat_of_nat del: of_nat_add)
    moreover have "unat (0x1B :: u8) = 27" by simp
    ultimately have "unat (of_nat (48 + d) :: u8) \<noteq> unat (0x1B :: u8)" by linarith
    then show ?thesis by metis
  qed
  from this [of v] this [of "v mod 10"] show ?case
    using 1 by (auto simp: decimal.simps [of v] simp del: of_nat_add)
qed

lemma print_long_uefi:
  assumes "sint n \<noteq> - (2 ^ 63)" and "ansi_state s = ST_NORMAL" and "has_con_out s"
  shows "print_long uefi_console n s = Ret () (s\<lparr>evs := evs s @ map text_event (signed_decimal (sint n) @ [10])\<rparr>)"
proof -
  define v where "v = nat \<bar>sint n\<bar>"
  have v: "\<bar>sint n\<bar> = int v" by (simp add: v_def)
  have "v < 10 ^ 19" using sint_lt [of n] sint_ge [of n] unfolding v_def by simp
  note buf = number_buf [OF this]
  have up: "ansi_state (s\<lparr>evs := e\<rparr>) = ST_NORMAL" "has_con_out (s\<lparr>evs := e\<rparr>)" for e
    using assms(2,3) by (simp_all add: has_con_out_def)
  have prints: "forO uefi_console_putc cs (s\<lparr>evs := e\<rparr>) = Ret () (s\<lparr>evs := e @ map text_event cs\<rparr>)"
    if "0x1B \<notin> set cs" for cs e
    using plain_text [OF up that, of e] by (simp add: uefi_console_putc_def [abs_def])
  have one: "uefi_console_putc c (s\<lparr>evs := e\<rparr>) = Ret () (s\<lparr>evs := e @ [text_event c]\<rparr>)" if "c \<noteq> 0x1B" for c e
    using prints [of "[c]" e] that by (cases "uefi_console_putc c (s\<lparr>evs := e\<rparr>)") auto
  have one0: "uefi_console_putc 45 s = Ret () (s\<lparr>evs := evs s @ [text_event 45]\<rparr>)"
    using one [of 45 "evs s"] by simp
  have digits: "forO uefi_console_putc (decimal v) (s\<lparr>evs := e\<rparr>) = Ret () (s\<lparr>evs := e @ map text_event (decimal v)\<rparr>)" for e
    by (rule prints [OF decimal_no_escape])
  show ?thesis
    unfolding print_long_def Let_def v buf using assms(1) digits [of "evs s"]
    by (simp add: one0 one digits signed_decimal_def v_def [symmetric])
qed

lemma log_unhandled_uefi:
  assumes "n \<noteq> 0x8000000000000000" and "ansi_state s = ST_NORMAL" and "has_con_out s"
  shows "ruby_on_bare_metal_log_unhandled uefi_console n s =
       Ret (- ENOSYS) (s\<lparr>evs := evs s @ map text_event (ascii ''syscall: unhandled #'' @ signed_decimal (sint n) @ [10])\<rparr>)"
proof -
  let ?t = "s\<lparr>evs := evs s @ map text_event (ascii ''syscall: unhandled #'')\<rparr>"
  have t: "ansi_state ?t = ST_NORMAL" "has_con_out ?t" using assms(2,3) by (simp_all add: has_con_out_def)
  have "c_puts uefi_console (ascii ''syscall: unhandled #'') s = Ret () ?t"
    using plain_text [OF assms(2,3), of "ascii ''syscall: unhandled #''"] by (simp add: uefi_console_puts_def)
  then show ?thesis
    using print_long_uefi [OF not_least_long [OF assms(1)] t]
    by (simp add: ruby_on_bare_metal_log_unhandled_def del: ascii_simps)
qed

lemma log_unhandled_serial:
  assumes "n \<noteq> 0x8000000000000000"
  shows "ruby_on_bare_metal_log_unhandled serial_console n s =
       Ret (- ENOSYS) (s\<lparr>evs := evs s @ com1 (ascii ''syscall: unhandled #'' @ signed_decimal (sint n) @ [10])\<rparr>)"
  by (simp add: ruby_on_bare_metal_log_unhandled_def serial_puts_eq
        print_long_serial [OF not_least_long [OF assms]] del: ascii_simps)

section \<open>Properties\<close>

text \<open>
  (functional)  An unknown system call number is reported on the console as its exact
  decimal numeral and answered with -ENOSYS; the 19-digit buffer is long enough for every number
  (only the least \<open>long\<close>, whose negation overflows, is excluded).
\<close>

theorem log_unhandled_prints_number:
  assumes "n \<noteq> 0x8000000000000000"
  shows "ruby_on_bare_metal_log_unhandled serial_console n s =
       Ret (- ENOSYS) (s\<lparr>evs := evs s @ com1 (ascii ''syscall: unhandled #'' @ signed_decimal (sint n) @ [10])\<rparr>)
     \<and> decimal_value (decimal (nat \<bar>sint n\<bar>)) = nat \<bar>sint n\<bar>"
  using log_unhandled_serial [OF assms] by (simp add: decimal_value_decimal)

definition blank_sys :: sys where
  "blank_sys = uefi.extend blank_uefi
     \<lparr>tsc_freq_khz = 1000, boot_tsc = 0, heap_offset = 0, fd_table = initial_fds,
      mmap_next = MMAP_BASE, syscall_trace = 0\<rparr>"

lemma blank_sys_simps [simp]:
  "fd_table blank_sys = initial_fds" "mmap_next blank_sys = MMAP_BASE" "syscall_trace blank_sys = 0"
  "mem blank_sys = (\<lambda>_. 0)" "evs blank_sys = []" "tsc_freq_khz blank_sys = 1000" "boot_tsc blank_sys = 0"
  "tsc_pos blank_sys = 0"
  by (simp_all add: blank_sys_def uefi.defs blank_uefi_def blank_hw_def hw.defs)

theorem log_unhandled_prints_number_witness:
  "ruby_on_bare_metal_log_unhandled serial_console 318 blank_sys =
     Ret (- ENOSYS) (blank_sys\<lparr>evs := com1 (ascii ''syscall: unhandled #'' @ [51, 49, 56, 10])\<rparr>)"
  using log_unhandled_prints_number [of 318 blank_sys]
  by (simp add: signed_decimal_def decimal.simps del: ascii_simps)

end
