(* ===== verification/Fd_Table.thy ===== *)
theory Fd_Table
  imports Sys_State
begin

text \<open>
  The file descriptor system calls of compat/ruby\_on\_bare\_metal\_syscall.c: read, write,
  writev, open, close, stat, fstat, dup and pipe over a table of 64 entries.  Descriptors 0, 1
  and 2 are the console; the others read embedded files.  Descriptor arguments are the values of
  C \<open>int\<close> variables.
\<close>

section \<open>Model\<close>

definition sys_read ::
  "'a sys_scheme build \<Rightarrow> int \<Rightarrow> ptr \<Rightarrow> u64 \<Rightarrow> 'a sys_scheme \<Rightarrow> (u64, 'a sys_scheme) outcome" where
  "sys_read b fd buf count s =
     (if fd = 0 then c_read (b_con b) buf count s
      else if fd \<ge> 3 \<and> fd < int MAX_FD \<and> fe_used (fd_table s ! nat fd) \<and> fe_data (fd_table s ! nat fd) \<noteq> 0 then
        (let f = fd_table s ! nat fd;
             remaining = fe_size f - fe_offset f
         in if remaining = 0 then Ret 0 s
            else let to_read = (if count < remaining then count else remaining);
                     s1 = memcpy buf (fe_data f + fe_offset f) to_read s
                 in Ret to_read
                      (s1\<lparr>fd_table := (fd_table s)[nat fd := f\<lparr>fe_offset := fe_offset f + to_read\<rparr>]\<rparr>))
      else Ret 0 s)"

definition sys_write ::
  "'a sys_scheme build \<Rightarrow> int \<Rightarrow> ptr \<Rightarrow> u64 \<Rightarrow> 'a sys_scheme \<Rightarrow> (u64, 'a sys_scheme) outcome" where
  "sys_write b fd buf count s =
     (if fd = 1 \<or> fd = 2 then andThen (c_write (b_con b) buf count s) (\<lambda>_ s1. Ret count s1)
      else Ret (- EBADF) s)"

text \<open>The loop of \<open>sys_writev\<close>; \<open>total += r\<close> (here \<open>acc\<close>) is signed, so it must not overflow.\<close>

primrec writev_loop ::
  "'a sys_scheme build \<Rightarrow> int \<Rightarrow> ptr \<Rightarrow> nat list \<Rightarrow> u64 \<Rightarrow> 'a sys_scheme \<Rightarrow> (u64, 'a sys_scheme) outcome" where
  "writev_loop b fd iov [] acc s = Ret acc s"
| "writev_loop b fd iov (i # is) acc s =
     (let base = load64 (iov + of_nat (16 * i)) s;
          len = load64 (iov + of_nat (16 * i) + 8) s
      in andThen (sys_write b fd base len s) (\<lambda>r s1.
           if sint r < 0 then Ret r s1
           else if sint acc + sint r \<ge> 2 ^ 63 then Stop Undefined s1
           else writev_loop b fd iov is (acc + r) s1))"

definition sys_writev ::
  "'a sys_scheme build \<Rightarrow> int \<Rightarrow> ptr \<Rightarrow> int \<Rightarrow> 'a sys_scheme \<Rightarrow> (u64, 'a sys_scheme) outcome" where
  "sys_writev b fd iov iovcnt s = writev_loop b fd iov [0..<nat iovcnt] 0 s"

text \<open>The first descriptor from 3 on that is not in use.\<close>

definition first_free :: "fd_entry list \<Rightarrow> nat option" where
  "first_free fds = find (\<lambda>i. \<not> fe_used (fds ! i)) [3..<MAX_FD]"

definition sys_open ::
  "'a sys_scheme build \<Rightarrow> bytes option \<Rightarrow> 'a sys_scheme \<Rightarrow> u64 \<times> 'a sys_scheme" where
  "sys_open b path s =
     (case ruby_on_bare_metal_embedded_file_data (b_files b) path 0 of (data, file_size) \<Rightarrow>
        if data \<noteq> 0 then
          (case first_free (fd_table s) of
             Some i \<Rightarrow> (of_nat i, s\<lparr>fd_table := (fd_table s)[i :=
                          \<lparr>fe_used = True, fe_data = data, fe_size = file_size, fe_offset = 0\<rparr>]\<rparr>)
           | None \<Rightarrow> (- EMFILE, s))
        else (- ENOENT, s))"

definition sys_close :: "int \<Rightarrow> 'a sys_scheme \<Rightarrow> u64 \<times> 'a sys_scheme" where
  "sys_close fd s =
     (if fd \<ge> 0 \<and> fd < int MAX_FD
      then (0, s\<lparr>fd_table := (fd_table s)[nat fd :=
             \<lparr>fe_used = False, fe_data = 0, fe_size = 0, fe_offset = 0\<rparr>]\<rparr>)
      else (- EBADF, s))"

definition sys_fstat :: "int \<Rightarrow> ptr \<Rightarrow> 'a sys_scheme \<Rightarrow> u64 \<times> 'a sys_scheme" where
  "sys_fstat fd st s =
     (if fd < 0 \<or> fd \<ge> int MAX_FD then (- EBADF, s)
      else
        (let s1 = memset st 0 sizeof_stat s
         in if fd \<le> 2 then
              (0, store64 (st + off_st_rdev) 0x0501 (store32 (st + off_st_mode) 0x21B6 s1))
            else if fe_data (fd_table s ! nat fd) \<noteq> 0 then
              (0, store64 (st + off_st_size) (fe_size (fd_table s ! nat fd))
                    (store32 (st + off_st_mode) 0x8124 s1))
            else
              (0, store64 (st + off_st_size) 0 (store32 (st + off_st_mode) 0x8124 s1))))"

definition sys_stat ::
  "'a sys_scheme build \<Rightarrow> bytes option \<Rightarrow> ptr \<Rightarrow> 'a sys_scheme \<Rightarrow> u64 \<times> 'a sys_scheme" where
  "sys_stat b path st s =
     (let s1 = memset st 0 sizeof_stat s
      in if ruby_on_bare_metal_file_exists (b_files b) path then
           (let sz = snd (ruby_on_bare_metal_embedded_file_data (b_files b) path 0)
            in (0, store64 (st + off_st_size) sz (store32 (st + off_st_mode) 0x8124 s1)))
         else (- ENOENT, s1))"

definition sys_dup :: "int \<Rightarrow> 'a sys_scheme \<Rightarrow> u64 \<times> 'a sys_scheme" where
  "sys_dup oldfd s =
     (if oldfd < 0 \<or> oldfd \<ge> int MAX_FD then (- EBADF, s)
      else case first_free (fd_table s) of
             Some i \<Rightarrow> (of_nat i, s\<lparr>fd_table := (fd_table s)[i := fd_table s ! nat oldfd]\<rparr>)
           | None \<Rightarrow> (- EMFILE, s))"

definition sys_dup2 :: "int \<Rightarrow> int \<Rightarrow> 'a sys_scheme \<Rightarrow> u64 \<times> 'a sys_scheme" where
  "sys_dup2 oldfd newfd s =
     (if oldfd < 0 \<or> oldfd \<ge> int MAX_FD then (- EBADF, s)
      else if newfd < 0 \<or> newfd \<ge> int MAX_FD then (- EBADF, s)
      else (of_int newfd, s\<lparr>fd_table := (fd_table s)[nat newfd := fd_table s ! nat oldfd]\<rparr>))"

definition sys_dup3 :: "int \<Rightarrow> int \<Rightarrow> int \<Rightarrow> 'a sys_scheme \<Rightarrow> u64 \<times> 'a sys_scheme" where
  "sys_dup3 oldfd newfd flags s = sys_dup2 oldfd newfd s"

text \<open>The loop that claims two free slots for \<open>pipe\<close>; \<open>r\<close> and \<open>w\<close> are -1 until found.\<close>

primrec pipe_loop :: "nat list \<Rightarrow> int \<Rightarrow> int \<Rightarrow> fd_entry list \<Rightarrow> int \<times> int \<times> fd_entry list" where
  "pipe_loop [] r w fds = (r, w, fds)"
| "pipe_loop (i # is) r w fds =
     (if r < 0 \<or> w < 0 then
        (if \<not> fe_used (fds ! i) then
           (if r < 0 then pipe_loop is (int i) w (fds[i := (fds ! i)\<lparr>fe_used := True\<rparr>])
            else pipe_loop is r (int i) (fds[i := (fds ! i)\<lparr>fe_used := True\<rparr>]))
         else pipe_loop is r w fds)
      else (r, w, fds))"

definition sys_pipe :: "ptr \<Rightarrow> 'a sys_scheme \<Rightarrow> u64 \<times> 'a sys_scheme" where
  "sys_pipe fds s =
     (case pipe_loop [3..<MAX_FD] (-1) (-1) (fd_table s) of (r, w, tab) \<Rightarrow>
        (let s1 = s\<lparr>fd_table := tab\<rparr>
         in if r < 0 \<or> w < 0 then (- EMFILE, s1)
            else (0, store32 (fds + 4) (of_int w) (store32 fds (of_int r) s1))))"

section \<open>The table invariant\<close>

text \<open>
  An entry is either without data (a console, a pipe end or free) and then has no size and no
  offset, or it is in use, points to an embedded file with that file's size, and its offset does
  not exceed the size.
\<close>

definition fd_ok :: "file_tables \<Rightarrow> fd_entry \<Rightarrow> bool" where
  "fd_ok ft f \<longleftrightarrow>
     (if fe_data f = 0 then fe_size f = 0 \<and> fe_offset f = 0
      else fe_used f \<and> fe_offset f \<le> fe_size f \<and> (fe_data f, fe_size f) \<in> ran (files_map ft))"

definition fds_ok :: "file_tables \<Rightarrow> fd_entry list \<Rightarrow> bool" where
  "fds_ok ft fds \<longleftrightarrow> length fds = MAX_FD \<and> (\<forall>f \<in> set fds. fd_ok ft f)"

lemma fds_ok_update: "fds_ok ft fds \<Longrightarrow> fd_ok ft f \<Longrightarrow> fds_ok ft (fds[i := f])"
  unfolding fds_ok_def by (auto dest!: subsetD [OF set_update_subset_insert])

lemma fds_ok_nth: "fds_ok ft fds \<Longrightarrow> i < MAX_FD \<Longrightarrow> fd_ok ft (fds ! i)"
  by (simp add: fds_ok_def)

lemma fds_ok_initial: "fds_ok ft initial_fds"
proof -
  have "set initial_fds = {\<lparr>fe_used = True, fe_data = 0, fe_size = 0, fe_offset = 0\<rparr>, closed_fd}"
    unfolding initial_fds_def set_append set_replicate_conv_if by auto
  moreover have "length initial_fds = MAX_FD"
    unfolding initial_fds_def length_append length_replicate by simp
  ultimately show ?thesis by (simp add: fds_ok_def fd_ok_def closed_fd_def)
qed

lemma first_free_SomeD:
  "first_free fds = Some i \<Longrightarrow> 3 \<le> i \<and> i < MAX_FD \<and> \<not> fe_used (fds ! i) \<and> (\<forall>j. 3 \<le> j \<and> j < i \<longrightarrow> fe_used (fds ! j))"
proof -
  assume "first_free fds = Some i"
  then obtain k where k: "k < length [3..<MAX_FD]" "\<not> fe_used (fds ! ([3..<MAX_FD] ! k))" "i = [3..<MAX_FD] ! k"
      "\<forall>j<k. fe_used (fds ! ([3..<MAX_FD] ! j))"
    unfolding first_free_def find_Some_iff by auto
  then have i: "i = 3 + k" "k < 61" by (simp_all del: upt_rec_numeral)
  moreover have "fe_used (fds ! j)" if "3 \<le> j" "j < i" for j
    using k(4)[rule_format, of "j - 3"] that i by (simp del: upt_rec_numeral)
  ultimately show ?thesis using k(2,3) by auto
qed

lemma first_free_None: "first_free fds = None \<longleftrightarrow> (\<forall>j. 3 \<le> j \<and> j < MAX_FD \<longrightarrow> fe_used (fds ! j))"
  unfolding first_free_def find_None_iff set_upt by auto

lemma initial_fds_simps [simp]:
  "length initial_fds = 64" "i < 3 \<Longrightarrow> fe_used (initial_fds ! i)"
  "3 \<le> i \<Longrightarrow> i < 64 \<Longrightarrow> initial_fds ! i = closed_fd"
proof -
  show "length initial_fds = 64"
    unfolding initial_fds_def length_append length_replicate by simp
  show "fe_used (initial_fds ! i)" if "i < 3"
    using that unfolding initial_fds_def nth_append length_replicate by (simp only: if_True nth_replicate fd_entry.simps)
  show "initial_fds ! i = closed_fd" if "3 \<le> i" "i < 64"
  proof -
    have "i - 3 < 61" "\<not> i < 3" using that by auto
    then show ?thesis unfolding initial_fds_def nth_append length_replicate by (simp only: if_False nth_replicate)
  qed
qed

text \<open>Effects on the rest of the state: the operations in closed form or as frames.\<close>

lemma pipe_loop_ok:
  "fds_ok ft fds \<Longrightarrow> set is \<subseteq> {..<MAX_FD} \<Longrightarrow> fds_ok ft (snd (snd (pipe_loop is r w fds)))"
proof (induction "is" arbitrary: r w fds)
  case (Cons i "is")
  have i: "i < MAX_FD" using Cons.prems(2) by simp
  have "fd_ok ft ((fds ! i)\<lparr>fe_used := True\<rparr>)"
    using fds_ok_nth [OF Cons.prems(1) i] by (simp add: fd_ok_def split: if_splits)
  then have "fds_ok ft (fds[i := (fds ! i)\<lparr>fe_used := True\<rparr>])"
    by (rule fds_ok_update [OF Cons.prems(1)])
  with Cons show ?case by simp
qed simp

definition fd_inv :: "file_tables \<Rightarrow> 'a sys_scheme \<Rightarrow> bool" where
  "fd_inv ft s \<longleftrightarrow> fds_ok ft (fd_table s)"

lemma fd_table_store [simp]: "fd_table (store n p w s) = fd_table s"
  by (simp add: store_def)

lemma fd_table_memset [simp]: "fd_table (memset p b n s) = fd_table s"
  by (simp add: memset_def)

lemma fd_table_memcpy [simp]: "fd_table (memcpy p q n s) = fd_table s"
  by (simp add: memcpy_def)

lemma sys_open_fd_inv:
  assumes "fd_inv ft s" and "tables_ok ft" and "b_files b = ft" and "\<forall>p. path = Some p \<longrightarrow> cstring p"
  shows "fd_inv ft (snd (sys_open b path s))"
proof (cases path)
  case None
  then show ?thesis using assms(1)
    by (simp add: sys_open_def ruby_on_bare_metal_embedded_file_data_def)
next
  case (Some p)
  have "fd_ok ft \<lparr>fe_used = True, fe_data = d, fe_size = n, fe_offset = 0\<rparr>" if "files_map ft p = Some (d, n)" for d n
    using that files_map_data [OF assms(2) that] by (auto simp: fd_ok_def ran_def)
  then show ?thesis using assms Some
    by (auto simp: sys_open_def file_data_eq fd_inv_def intro!: fds_ok_update split: option.split)
qed

lemma sys_close_fd_inv: "fd_inv ft s \<Longrightarrow> fd_inv ft (snd (sys_close fd s))"
  by (auto simp: sys_close_def fd_inv_def fd_ok_def intro!: fds_ok_update)

lemma sys_fstat_fd_table [simp]: "fd_table (snd (sys_fstat fd p s)) = fd_table s"
  by (simp add: sys_fstat_def Let_def)

lemma sys_stat_fd_table [simp]: "fd_table (snd (sys_stat b path p s)) = fd_table s"
  by (simp add: sys_stat_def Let_def)

lemma sys_dup_fd_inv: "fd_inv ft s \<Longrightarrow> fd_inv ft (snd (sys_dup fd s))"
  by (auto simp: sys_dup_def fd_inv_def intro!: fds_ok_update fds_ok_nth split: option.split)

lemma sys_dup2_fd_inv: "fd_inv ft s \<Longrightarrow> fd_inv ft (snd (sys_dup2 fd fd' s))"
  by (auto simp: sys_dup2_def fd_inv_def intro!: fds_ok_update fds_ok_nth)

lemma sys_pipe_fd_inv: "fd_inv ft s \<Longrightarrow> fd_inv ft (snd (sys_pipe p s))"
proof -
  assume inv: "fd_inv ft s"
  have "set [3..<MAX_FD] \<subseteq> {..<MAX_FD}" by auto
  from pipe_loop_ok [OF inv [unfolded fd_inv_def] this, of "-1" "-1"] show ?thesis
    by (simp add: sys_pipe_def fd_inv_def Let_def case_prod_beta)
qed

section \<open>Reading through a console that keeps its contract\<close>

lemma sys_more:
  fixes s t :: "'a sys_scheme"
  assumes "uefi.more t = uefi.more s"
  shows "fd_table t = fd_table s" "mmap_next t = mmap_next s" "tsc_freq_khz t = tsc_freq_khz s"
    "boot_tsc t = boot_tsc s" "heap_offset t = heap_offset s" "syscall_trace t = syscall_trace s"
    "sys.more t = sys.more s"
  using assms by (cases s; cases t; simp)+

lemma fills_sys:
  fixes s t :: "'a sys_scheme"
  assumes "fills p n s t"
  shows "fd_table t = fd_table s" "mmap_next t = mmap_next s"
  using assms sys_more [of t s] by (simp_all only: fills_def)

lemma quiet_sys:
  fixes s t :: "'a sys_scheme"
  assumes "quiet s t"
  shows "fd_table t = fd_table s" "mmap_next t = mmap_next s" "mem t = mem s"
  using assms sys_more [of t s] by (simp_all only: quiet_def)

lemma quiet_fd_inv: "quiet s t \<Longrightarrow> fd_inv ft s \<Longrightarrow> fd_inv ft t"
  unfolding fd_inv_def by (simp only: quiet_sys)

lemma fills_fd_inv: "fills p n s t \<Longrightarrow> fd_inv ft s \<Longrightarrow> fd_inv ft t"
  unfolding fd_inv_def by (simp only: fills_sys)

text \<open>Only the memory of a buffer has changed.\<close>

definition writes_only :: "ptr \<Rightarrow> nat \<Rightarrow> 'a sys_scheme \<Rightarrow> 'a sys_scheme \<Rightarrow> bool" where
  "writes_only buf n s t \<longleftrightarrow> (\<forall>a. \<not> in_region buf n a \<longrightarrow> mem t a = mem s a)"

locale sys_layer = console_contract "b_con b"
  for b :: "'a sys_scheme build"
begin

lemma sys_read_fd_inv:
  assumes "fd_inv ft s" shows "post (\<lambda>_ t. fd_inv ft t) (sys_read b fd buf count s)"
proof -
  have con: "post (\<lambda>_ t. fd_inv ft t) (c_read (b_con b) buf count s)"
    by (rule post_mono [OF read_fills]) (use assms fills_fd_inv in blast)
  have entry: "fd_ok ft (f\<lparr>fe_offset := fe_offset f + r\<rparr>)"
    if "fd_ok ft f" "fe_data f \<noteq> 0" "r \<le> fe_size f - fe_offset f" for f r
  proof -
    have le: "fe_offset f \<le> fe_size f" using that by (simp add: fd_ok_def)
    then have "unat (fe_offset f) + unat r \<le> unat (fe_size f)"
      using that(3) by (simp add: word_le_nat_alt unat_sub)
    then have "fe_offset f + r \<le> fe_size f"
      using unat_bound [of "fe_size f"] by (simp add: word_le_nat_alt unat_word_ariths)
    then show ?thesis using that by (simp add: fd_ok_def)
  qed
  have "fd_ok ft (fd_table s ! nat fd)" if "fd < int MAX_FD" "3 \<le> fd"
    using assms that by (intro fds_ok_nth) (auto simp: fd_inv_def)
  note entry' = entry [OF this]
  have eof: "fd_ok ft (f\<lparr>fe_offset := fe_size f\<rparr>)" if "fd_ok ft f" "fe_data f \<noteq> 0" for f
    using that by (simp add: fd_ok_def)
  note eof' = eof [OF \<open>fd < int MAX_FD \<Longrightarrow> 3 \<le> fd \<Longrightarrow> fd_ok ft (fd_table s ! nat fd)\<close>]
  show ?thesis
    using con assms
    by (auto simp: sys_read_def Let_def fd_inv_def intro!: fds_ok_update entry' eof')
qed

lemma sys_read_bounds: "post (\<lambda>n t. n \<le> count \<and> writes_only buf (unat count) s t) (sys_read b fd buf count s)"
proof -
  have con: "post (\<lambda>n t. n \<le> count \<and> writes_only buf (unat count) s t) (c_read (b_con b) buf count s)"
    by (rule post_mono [OF read_fills]) (auto simp: fills_def writes_only_def)
  have copy: "mem_copy (mem s) buf src (unat k) a = mem s a" if "\<not> in_region buf (unat count) a" "k \<le> count" for src k a
    using that by (auto simp: mem_copy_def in_region_def word_le_nat_alt)
  show ?thesis
    using con by (auto simp: sys_read_def Let_def writes_only_def mem_memcpy copy)
qed

lemma sys_write_quiet: "post (\<lambda>_. quiet s) (sys_write b fd buf count s)"
  by (auto simp: sys_write_def intro!: post_andThen [OF write_quiet])

lemma writev_loop_quiet: "quiet s0 s \<Longrightarrow> post (\<lambda>_. quiet s0) (writev_loop b fd iov is acc s)"
proof (induction "is" arbitrary: acc s)
  case (Cons i "is")
  show ?case unfolding writev_loop.simps Let_def
    by (rule post_andThen [OF sys_write_quiet]) (auto intro!: Cons.IH quiet_trans [OF Cons.prems])
qed simp

lemma sys_writev_quiet: "post (\<lambda>_. quiet s) (sys_writev b fd iov n s)"
  unfolding sys_writev_def by (rule writev_loop_quiet) simp

end

section \<open>Reading a file to its end\<close>

text \<open>
  The client's loop around \<open>read\<close>: chunks of \<open>count\<close> bytes into the same buffer until a read
  returns 0, collecting what arrives; the number of calls is bounded by the fuel.
\<close>

fun read_all ::
  "nat \<Rightarrow> 'a sys_scheme build \<Rightarrow> int \<Rightarrow> ptr \<Rightarrow> u64 \<Rightarrow> 'a sys_scheme \<Rightarrow> (bytes \<times> 'a sys_scheme) option" where
  "read_all 0 b fd buf count s = None"
| "read_all (Suc n) b fd buf count s =
     (case sys_read b fd buf count s of
        Stop _ _ \<Rightarrow> None
      | Ret r t \<Rightarrow>
          if r = 0 then Some ([], t)
          else map_option (\<lambda>(bs, u). (mem_bytes (mem t) buf (unat r) @ bs, u)) (read_all n b fd buf count t))"

definition open_file :: "'a sys_scheme \<Rightarrow> int \<Rightarrow> bool" where
  "open_file s fd \<longleftrightarrow> 3 \<le> fd \<and> fd < int MAX_FD \<and> length (fd_table s) = MAX_FD
     \<and> fe_used (fd_table s ! nat fd) \<and> fe_data (fd_table s ! nat fd) \<noteq> 0
     \<and> fe_offset (fd_table s ! nat fd) \<le> fe_size (fd_table s ! nat fd)"

abbreviation contents :: "'a sys_scheme \<Rightarrow> fd_entry \<Rightarrow> bytes" where
  "contents s f \<equiv> mem_bytes (mem s) (fe_data f) (unat (fe_size f))"

lemma take_drop_append: "take k (drop i xs) @ drop (i + k) xs = drop i xs"
  using append_take_drop_id [of k "drop i xs"] by (simp add: add.commute)

text \<open>
  A read of an open file, as one step: what is left to read bounds the count; a read at the end of
  the file copies nothing and moves nothing.
\<close>

definition read_count :: "fd_entry \<Rightarrow> u64 \<Rightarrow> u64" where
  "read_count f n = (if n < fe_size f - fe_offset f then n else fe_size f - fe_offset f)"

definition after_read :: "int \<Rightarrow> ptr \<Rightarrow> u64 \<Rightarrow> 'a sys_scheme \<Rightarrow> 'a sys_scheme" where
  "after_read fd buf r s =
     (let f = fd_table s ! nat fd
      in (memcpy buf (fe_data f + fe_offset f) r s)\<lparr>fd_table := (fd_table s)[nat fd := f\<lparr>fe_offset := fe_offset f + r\<rparr>]\<rparr>)"

lemma sys_read_step:
  assumes "3 \<le> fd" and "fd < int MAX_FD" and "fe_used (fd_table s ! nat fd)" and "fe_data (fd_table s ! nat fd) \<noteq> 0"
  shows "sys_read b fd buf n s =
     (let r = read_count (fd_table s ! nat fd) n in Ret r (after_read fd buf r s))"
proof -
  have "mem_copy m p q 0 = m" for m p q by (simp add: mem_copy_def)
  then have "after_read fd buf 0 s = s" by (simp add: after_read_def memcpy_def Let_def)
  then show ?thesis using assms by (simp add: sys_read_def read_count_def after_read_def Let_def)
qed

lemma read_count_bounds:
  assumes "fe_offset f \<le> fe_size f"
  shows "unat (read_count f n) = min (unat n) (unat (fe_size f) - unat (fe_offset f))"
    and "unat (fe_offset f + read_count f n) = unat (fe_offset f) + unat (read_count f n)"
proof -
  have le: "unat (fe_offset f) \<le> unat (fe_size f)" using assms by (simp add: word_le_nat_alt)
  then have "unat (fe_size f - fe_offset f) = unat (fe_size f) - unat (fe_offset f)"
    by (simp add: unat_sub word_le_nat_alt)
  then show ur: "unat (read_count f n) = min (unat n) (unat (fe_size f) - unat (fe_offset f))"
    by (auto simp: read_count_def word_less_nat_alt)
  have "unat (fe_offset f) + unat (read_count f n) \<le> unat (fe_size f)" using le unfolding ur by linarith
  then have "unat (fe_offset f) + unat (read_count f n) < 2 ^ 64" using unat_bound [of "fe_size f"] by simp
  then show "unat (fe_offset f + read_count f n) = unat (fe_offset f) + unat (read_count f n)"
    by (simp add: unat_word_ariths)
qed

lemma read_bytes:
  assumes "fe_offset f \<le> fe_size f" and "unat r \<le> unat (fe_size f) - unat (fe_offset f)"
    and "fd_table s ! nat fd = f"
  shows "mem_bytes (mem (after_read fd buf r s)) buf (unat r)
     = take (unat r) (drop (unat (fe_offset f)) (mem_bytes (mem s) (fe_data f) (unat (fe_size f))))"
proof -
  have "mem_bytes (mem (after_read fd buf r s)) buf (unat r)
      = mem_bytes (mem s) (fe_data f + of_nat (unat (fe_offset f))) (unat r)"
    using unat_bound [of r] assms(3) by (simp add: after_read_def Let_def mem_memcpy mem_bytes_copy)
  also have "\<dots> = take (unat r) (mem_bytes (mem s) (fe_data f + of_nat (unat (fe_offset f))) (unat (fe_size f) - unat (fe_offset f)))"
    by (rule mem_bytes_take [OF assms(2)])
  finally show ?thesis by (simp only: mem_bytes_drop [OF assms(1) [unfolded word_le_nat_alt]])
qed

lemma read_all_file:
  assumes "open_file s fd" and "fd_table s ! nat fd = f" and "count \<noteq> 0"
    and "\<And>a. in_region buf (unat count) a \<Longrightarrow> \<not> in_region (fe_data f) (unat (fe_size f)) a"
    and "unat (fe_size f) - unat (fe_offset f) < n"
  shows "\<exists>t. read_all n b fd buf count s = Some (drop (unat (fe_offset f)) (contents s f), t)
     \<and> contents t f = contents s f"
  using assms
proof (induction n arbitrary: s f)
  case (Suc n)
  let ?F = "contents s f"
  define r where "r = read_count f count"
  define t where "t = after_read fd buf r s"
  define f' where "f' = f\<lparr>fe_offset := fe_offset f + r\<rparr>"
  have le: "fe_offset f \<le> fe_size f" using Suc.prems(1,2) by (simp add: open_file_def)
  note count = read_count_bounds [OF le, of count, folded r_def]
  have read: "sys_read b fd buf count s = Ret r t"
    using sys_read_step [of fd s b buf count] Suc.prems(1,2) by (simp add: open_file_def r_def t_def Let_def)
  have "mem t a = mem s a" if "in_region (fe_data f) (unat (fe_size f)) a" for a
    using Suc.prems(4) [of a] that count(1)
    by (auto simp: t_def after_read_def Let_def memcpy_def mem_copy_def in_region_def)
  then have same: "contents t f = ?F"
    by (intro mem_bytes_frame) (use unat_bound [of "fe_size f"] in auto)
  have chunk: "mem_bytes (mem t) buf (unat r) = take (unat r) (drop (unat (fe_offset f)) ?F)"
    unfolding t_def using count(1) by (intro read_bytes [OF le _ Suc.prems(2)]) simp
  show ?case
  proof (cases "r = 0")
    case True
    then have "unat (fe_size f) \<le> unat (fe_offset f)" using count(1) Suc.prems(3) unat_gt_0 [of count] by (simp add: min_def split: if_splits)
    then show ?thesis using True same by (simp add: read)
  next
    case False
    have f': "fe_data f' = fe_data f" "fe_size f' = fe_size f" "unat (fe_offset f') = unat (fe_offset f) + unat r"
      using count(2) by (simp_all add: f'_def)
    have tab: "fd_table t ! nat fd = f'" "length (fd_table t) = length (fd_table s)"
      using Suc.prems(1,2) by (auto simp: t_def after_read_def Let_def open_file_def f'_def)
    moreover have "fe_offset f' \<le> fe_size f'" using count(1) f' le by (simp add: word_le_nat_alt)
    ultimately have open_t: "open_file t fd"
      using Suc.prems(1,2) by (simp_all add: open_file_def) (simp_all add: f'_def)
    have "unat (fe_size f') - unat (fe_offset f') < n"
      using Suc.prems(5) count(1) False unat_gt_0 [of r] unfolding f' by linarith
    then have "\<exists>u. read_all n b fd buf count t = Some (drop (unat (fe_offset f')) (contents t f'), u) \<and> contents u f' = contents t f'"
      by (intro Suc.IH [OF open_t tab(1) Suc.prems(3)]) (unfold f', rule Suc.prems(4))
    then obtain u where "read_all n b fd buf count t = Some (drop (unat (fe_offset f) + unat r) ?F, u)" "contents u f = ?F"
      unfolding f' same by blast
    then show ?thesis
      using take_drop_append [of "unat r" "unat (fe_offset f)" ?F] False by (simp add: read chunk)
  qed
qed simp

end
