(* ===== verification/Fd_Files.thy ===== *)
theory Fd_Files
  imports Fd_Table
begin

text \<open>
  What the file descriptor calls achieve together: opening and reading a file to its end,
  the slots that open, dup and pipe choose, gathered output, and file status.  The layer's
  contract is interpreted for both consoles the kernel can be built with.
\<close>

section \<open>The two builds\<close>

definition serial_build :: "file_tables \<Rightarrow> 'a sys_scheme build" where
  "serial_build ft = \<lparr>b_con = serial_console, b_files = ft\<rparr>"

definition uefi_build :: "file_tables \<Rightarrow> 'a sys_scheme build" where
  "uefi_build ft = \<lparr>b_con = uefi_console, b_files = ft\<rparr>"

lemma build_simps [simp]:
  "b_con (serial_build ft) = serial_console" "b_files (serial_build ft) = ft"
  "b_con (uefi_build ft) = uefi_console" "b_files (uefi_build ft) = ft"
  by (simp_all add: serial_build_def uefi_build_def)

interpretation serial_sys: sys_layer "serial_build ft" for ft
  by (simp add: sys_layer_def serial_con.console_contract_axioms)

interpretation uefi_sys: sys_layer "uefi_build ft" for ft
  by (simp add: sys_layer_def uefi_con.console_contract_axioms)

section \<open>Lemmas\<close>

lemma first_freeI:
  assumes "3 \<le> i" "i < MAX_FD" "\<not> fe_used (fds ! i)" "\<And>j. 3 \<le> j \<Longrightarrow> j < i \<Longrightarrow> fe_used (fds ! j)"
  shows "first_free fds = Some i"
proof (cases "first_free fds")
  case None
  with assms show ?thesis by (auto simp: first_free_None)
next
  case (Some k)
  have "k = i" using first_free_SomeD [OF Some] assms by (metis linorder_neqE_nat)
  with Some show ?thesis by simp
qed

lemma first_free_initial [simp]: "first_free initial_fds = Some 3"
  by (rule first_freeI) (auto simp: closed_fd_def)

text \<open>The loop of \<open>pipe\<close> in terms of \<open>find\<close>: one pass per end still missing.\<close>

lemma pipe_loop_done: "0 \<le> r \<Longrightarrow> 0 \<le> w \<Longrightarrow> pipe_loop is r w fds = (r, w, fds)"
  by (cases "is") auto

lemma pipe_loop_write:
  "0 \<le> r \<Longrightarrow> pipe_loop is r (-1) fds =
     (case find (\<lambda>i. \<not> fe_used (fds ! i)) is of
        None \<Rightarrow> (r, -1, fds)
      | Some j \<Rightarrow> (r, int j, fds[j := (fds ! j)\<lparr>fe_used := True\<rparr>]))"
  by (induction "is") (auto simp: pipe_loop_done)

lemma pipe_loop_read:
  assumes "set is \<subseteq> {..<length fds}"
  shows "pipe_loop is (-1) (-1) fds =
     (case find (\<lambda>i. \<not> fe_used (fds ! i)) is of
        None \<Rightarrow> (-1, -1, fds)
      | Some i \<Rightarrow> pipe_loop is (int i) (-1) (fds[i := (fds ! i)\<lparr>fe_used := True\<rparr>]))"
  using assms
proof (induction "is")
  case (Cons k "is")
  have "fe_used (fds[i := (fds ! i)\<lparr>fe_used := True\<rparr>] ! k)" if "fe_used (fds ! k)" for i
    using that Cons.prems by (cases "i = k") auto
  with Cons show ?case by (auto split: option.split)
qed simp

definition claim :: "nat \<Rightarrow> fd_entry list \<Rightarrow> fd_entry list" where
  "claim i fds = fds[i := (fds ! i)\<lparr>fe_used := True\<rparr>]"

lemma sys_pipe_eq:
  assumes "length (fd_table s) = MAX_FD"
  shows "sys_pipe p s =
     (case first_free (fd_table s) of
        None \<Rightarrow> (- EMFILE, s)
      | Some i \<Rightarrow>
          (let fds = claim i (fd_table s)
           in case first_free fds of
                None \<Rightarrow> (- EMFILE, s\<lparr>fd_table := fds\<rparr>)
              | Some j \<Rightarrow> (0, store32 (p + 4) (of_nat j) (store32 p (of_nat i) (s\<lparr>fd_table := claim j fds\<rparr>)))))"
proof -
  define L where "L = [3..<MAX_FD]"
  have free: "find (\<lambda>i. \<not> fe_used (fds ! i)) L = first_free fds" for fds
    unfolding L_def first_free_def ..
  have "set L \<subseteq> {..<length (fd_table s)}" unfolding L_def assms by auto
  from pipe_loop_read [OF this] show ?thesis
    unfolding sys_pipe_def L_def [symmetric]
    by (simp add: free pipe_loop_write claim_def Let_def split: option.split)
qed


text \<open>One buffer of a \<open>writev\<close> vector.\<close>

definition iov_len :: "ptr \<Rightarrow> 'a sys_scheme \<Rightarrow> nat \<Rightarrow> nat" where
  "iov_len iov s i = unat (load64 (iov + of_nat (16 * i) + 8) s :: u64)"

definition iov_bytes :: "ptr \<Rightarrow> 'a sys_scheme \<Rightarrow> nat \<Rightarrow> bytes" where
  "iov_bytes iov s i = mem_bytes (mem s) (load64 (iov + of_nat (16 * i)) s) (iov_len iov s i)"

lemma sint_of_nat: "k < 2 ^ 63 \<Longrightarrow> sint (of_nat k :: u64) = int k"
  by (simp add: signed_of_nat signed_take_bit_int_eq_self)


lemma writev_loop_serial:
  assumes "fd = 1 \<or> fd = 2" and "k + sum_list (map (iov_len iov s) is) < 2 ^ 63"
  shows "writev_loop (serial_build ft) fd iov is (of_nat k) s =
     Ret (of_nat (k + sum_list (map (iov_len iov s) is)))
       (s\<lparr>evs := evs s @ com1 (concat (map (iov_bytes iov s) is))\<rparr>)"
  using assms(2)
proof (induction "is" arbitrary: k s)
  case (Cons i "is")
  let ?n = "iov_len iov s i"
  define s1 where "s1 = s\<lparr>evs := evs s @ com1 (iov_bytes iov s i)\<rparr>"
  have k: "k + ?n < 2 ^ 63" using Cons.prems by simp
  have same: "iov_len iov s1 j = iov_len iov s j" "iov_bytes iov s1 j = iov_bytes iov s j" for j
    by (simp_all add: iov_len_def iov_bytes_def s1_def load_def)
  then have same': "map (iov_len iov s1) is = map (iov_len iov s) is" "map (iov_bytes iov s1) is = map (iov_bytes iov s) is"
    by simp_all
  have n: "load64 (iov + of_nat (16 * i) + 8) s = of_nat ?n" by (simp add: iov_len_def)
  have w: "sys_write (serial_build ft) fd (load64 (iov + of_nat (16 * i)) s) (of_nat ?n) s = Ret (of_nat ?n) s1"
    using assms(1) by (auto simp: sys_write_def serial_write_eq s1_def iov_bytes_def iov_len_def)
  have "writev_loop (serial_build ft) fd iov (i # is) (of_nat k) s
      = writev_loop (serial_build ft) fd iov is (of_nat (k + ?n)) s1"
    using k by (simp only: writev_loop.simps Let_def n w andThen.simps) (simp add: sint_of_nat)
  also have "\<dots> = Ret (of_nat (k + ?n + sum_list (map (iov_len iov s) is)))
       (s1\<lparr>evs := evs s1 @ com1 (concat (map (iov_bytes iov s) is))\<rparr>)"
    using Cons.IH [of "k + ?n" s1] Cons.prems unfolding same' by simp
  finally show ?case by (simp add: s1_def add.assoc)
qed simp


text \<open>The entry of a file just opened, and the state with it in slot \<open>i\<close>.\<close>

definition opened :: "nat \<Rightarrow> ptr \<Rightarrow> u64 \<Rightarrow> 'a sys_scheme \<Rightarrow> 'a sys_scheme" where
  "opened i d n s = s\<lparr>fd_table := (fd_table s)[i :=
     \<lparr>fe_used = True, fe_data = d, fe_size = n, fe_offset = 0\<rparr>]\<rparr>"

lemma sys_open_eq:
  assumes "tables_ok (b_files b)" and "cstring p"
  shows "sys_open b (Some p) s =
     (case files_map (b_files b) p of
        None \<Rightarrow> (- ENOENT, s)
      | Some (d, n) \<Rightarrow> (case first_free (fd_table s) of
                        None \<Rightarrow> (- EMFILE, s)
                      | Some i \<Rightarrow> (of_nat i, opened i d n s)))"
  using file_data_eq [OF assms, of 0] files_map_data [OF assms(1), of p]
  by (auto simp: sys_open_def opened_def split: option.split)

lemma opened_file:
  assumes "3 \<le> i" and "i < MAX_FD" and "length (fd_table s) = MAX_FD" and "d \<noteq> 0"
  shows "open_file (opened i d n s) (int i)"
    and "fd_table (opened i d n s) ! i = \<lparr>fe_used = True, fe_data = d, fe_size = n, fe_offset = 0\<rparr>"
    and "mem (opened i d n s) = mem s"
  using assms by (simp_all add: opened_def open_file_def)

text \<open>An address range apart from another, as ranges of naturals.\<close>

definition clear_of :: "ptr \<Rightarrow> nat \<Rightarrow> ptr \<Rightarrow> nat \<Rightarrow> bool" where
  "clear_of p n q m \<longleftrightarrow> unat p + n \<le> 2 ^ 64 \<and> unat q + m \<le> 2 ^ 64 \<and> (unat p + n \<le> unat q \<or> unat q + m \<le> unat p)"

lemma clear_of_region: "clear_of p n q m \<Longrightarrow> in_region p n a \<Longrightarrow> \<not> in_region q m a"
  by (auto simp: clear_of_def in_region_iff)

text \<open>Storing \<open>st_size\<close> leaves \<open>st_mode\<close> alone.\<close>

lemma load_mode_store_size: "load32 (st + off_st_mode) (store64 (st + off_st_size) v s) = load32 (st + off_st_mode) s"
proof (rule load_store_other)
  fix i :: nat assume "i < 4"
  then consider "i = 0" | "i = 1" | "i = 2" | "i = 3" by linarith
  then show "8 \<le> unat (st + off_st_mode - (st + off_st_size) + of_nat i)" by cases simp_all
qed

section \<open>Properties\<close>

text \<open>
  C2 (roundtrip).  Opening an embedded file and reading it in chunks of any size until a read
  returns 0 delivers exactly the file's bytes and ends, provided the buffer does not overlap the
  file's data and a descriptor is free.
\<close>

theorem open_read_roundtrip:
  assumes "tables_ok (b_files b)" and "fd_inv (b_files b) s" and "cstring p"
    and "files_map (b_files b) p = Some (d, n)" and "first_free (fd_table s) = Some i"
    and "count \<noteq> 0" and "clear_of buf (unat count) d (unat n)"
  shows "sys_open b (Some p) s = (of_nat i, opened i d n s)
     \<and> (\<exists>t. read_all (Suc (unat n)) b (int i) buf count (opened i d n s) = Some (mem_bytes (mem s) d (unat n), t))"
proof -
  have i: "3 \<le> i" "i < MAX_FD" using first_free_SomeD [OF assms(5)] by auto
  have len: "length (fd_table s) = MAX_FD" using assms(2) by (simp add: fd_inv_def fds_ok_def)
  note o = opened_file [OF i len files_map_data [OF assms(1,4)], of n]
  have "\<exists>t. read_all (Suc (unat n)) b (int i) buf count (opened i d n s) =
      Some (drop 0 (mem_bytes (mem (opened i d n s)) d (unat n)), t)"
    using read_all_file [OF o(1) _ assms(6), of _ buf "Suc (unat n)" b] o(2) clear_of_region [OF assms(7)] by auto
  then show ?thesis using assms(4,5) by (simp add: sys_open_eq [OF assms(1,3)] o(3))
qed

definition demo_script :: bytes where
  "demo_script = ascii ''puts [1, 2].sum; exit 0 # '' "

definition demo_sys :: sys where
  "demo_sys = blank_sys\<lparr>mem := mem_put (\<lambda>_. 0) 0x500000 demo_script\<rparr>"

lemma demo_simps:
  "fd_table demo_sys = initial_fds" "mem_bytes (mem demo_sys) 0x500000 26 = demo_script"
  "fd_inv ft demo_sys" "files_map two_tables (ascii ''/init.rb'') = Some (0x500000, 26)"
proof -
  have "length demo_script = 26" by (simp add: demo_script_def)
  then show "mem_bytes (mem demo_sys) 0x500000 26 = demo_script"
    using mem_bytes_put [of demo_script "\<lambda>_. 0" "0x500000"] by (simp add: demo_sys_def)
  show "files_map two_tables (ascii ''/init.rb'') = Some (0x500000, 26)"
    by (simp add: files_map_def two_tables_def)
qed (simp_all add: demo_sys_def fd_inv_def fds_ok_initial)

theorem open_read_roundtrip_witness:
  "sys_open (serial_build two_tables) (Some (ascii ''/init.rb'')) demo_sys = (3, opened 3 0x500000 26 demo_sys)
   \<and> (\<exists>t. read_all 27 (serial_build two_tables) 3 0x600000 10 (opened 3 0x500000 26 demo_sys) = Some (demo_script, t))"
proof -
  have "clear_of 0x600000 (unat (10 :: u64)) 0x500000 (unat (26 :: u64))" by (simp add: clear_of_def)
  from open_read_roundtrip [OF _ _ two_tables_ok(2) _ _ _ this, of "serial_build two_tables" demo_sys 3]
  show ?thesis by (simp add: two_tables_ok(1) demo_simps del: ascii_simps read_all.simps)
qed

text \<open>
  (functional)  \<open>open\<close> on every branch: ENOENT for a path no table holds; EMFILE when all of
  3 to 63 are in use; otherwise the lowest free descriptor, positioned at the start of the file,
  and every other entry as before.
\<close>

theorem open_outcomes:
  assumes "tables_ok (b_files b)" and "cstring p" and "length (fd_table s) = MAX_FD"
  shows "case files_map (b_files b) p of
       None \<Rightarrow> sys_open b (Some p) s = (- ENOENT, s)
     | Some (d, n) \<Rightarrow>
         if \<forall>j \<in> {3..<MAX_FD}. fe_used (fd_table s ! j) then sys_open b (Some p) s = (- EMFILE, s)
         else let i = (LEAST i. 3 \<le> i \<and> \<not> fe_used (fd_table s ! i))
              in sys_open b (Some p) s = (of_nat i, opened i d n s)"
proof (cases "files_map (b_files b) p")
  case None
  then show ?thesis using sys_open_eq [OF assms(1,2)] by simp
next
  case (Some x)
  obtain d n where x: "x = (d, n)" by fastforce
  show ?thesis
  proof (cases "first_free (fd_table s)")
    case None
    with Some x show ?thesis using sys_open_eq [OF assms(1,2)] first_free_None [of "fd_table s"] by simp
  next
    case (Some i)
    note i = first_free_SomeD [OF Some]
    then have "(LEAST i. 3 \<le> i \<and> \<not> fe_used (fd_table s ! i)) = i"
      by (intro Least_equality) (auto simp: not_less [symmetric])
    moreover have "\<not> (\<forall>j \<in> {3..<MAX_FD}. fe_used (fd_table s ! j))" using i by auto
    ultimately show ?thesis
      using sys_open_eq [OF assms(1,2), of s] Some \<open>files_map (b_files b) p = Some x\<close> x by auto
  qed
qed

theorem open_outcomes_witness:
  "sys_open (serial_build two_tables) (Some (ascii ''/init.rb'')) demo_sys = (3, opened 3 0x500000 26 demo_sys)
   \<and> sys_open (serial_build two_tables) (Some (ascii ''/nope'')) demo_sys = (- ENOENT, demo_sys)"
proof -
  have free: "\<not> (\<forall>j \<in> {3..<MAX_FD}. fe_used (initial_fds ! j))"
    using initial_fds_simps(3) [of 3] by (auto simp: closed_fd_def intro!: bexI [of _ 3])
  have least: "(LEAST i. 3 \<le> i \<and> \<not> fe_used (initial_fds ! i)) = 3"
    by (rule Least_equality) (simp_all add: closed_fd_def)
  have nope: "files_map two_tables (ascii ''/nope'') = None" "cstring (ascii ''/nope'')"
    by (simp_all add: files_map_def two_tables_def cstring_def)
  have ok: "tables_ok (b_files (serial_build two_tables))" "length (fd_table demo_sys) = MAX_FD"
    by (simp_all add: two_tables_ok demo_simps)
  have "sys_open (serial_build two_tables) (Some (ascii ''/init.rb'')) demo_sys = (3, opened 3 0x500000 26 demo_sys)"
    using open_outcomes [OF ok(1) two_tables_ok(2) ok(2)] free
    by (simp add: demo_simps least del: ascii_simps)
  moreover have "sys_open (serial_build two_tables) (Some (ascii ''/nope'')) demo_sys = (- ENOENT, demo_sys)"
    using open_outcomes [OF ok(1) nope(2) ok(2)] by (simp add: nope(1) del: ascii_simps)
  ultimately show ?thesis ..
qed

text \<open>
  C29 (equivalence).  \<open>stat\<close> of a path and \<open>open\<close> followed by \<open>fstat\<close> describe the file alike:
  the same 144 bytes are stored, with the file's size and the mode of a read-only regular file.
\<close>

theorem stat_matches_fstat:
  assumes "tables_ok (b_files b)" and "cstring p" and "length (fd_table s) = MAX_FD"
    and "files_map (b_files b) p = Some (d, n)" and "sys_open b (Some p) s = (of_nat i, s1)" and "i < MAX_FD"
  shows "fst (sys_stat b (Some p) st s) = 0 \<and> fst (sys_fstat (int i) st s1) = 0
     \<and> mem (snd (sys_stat b (Some p) st s)) = mem (snd (sys_fstat (int i) st s1))
     \<and> load64 (st + off_st_size) (snd (sys_stat b (Some p) st s)) = n
     \<and> load32 (st + off_st_mode) (snd (sys_stat b (Some p) st s)) = 0x8124"
proof -
  have "(- EMFILE :: u64) \<noteq> of_nat i"
  proof
    assume "(- EMFILE :: u64) = of_nat i"
    then have "unat (- EMFILE :: u64) = unat (of_nat i :: u64)" by simp
    then show False using assms(6) by (simp add: unat_of_nat)
  qed
  then obtain k where k: "first_free (fd_table s) = Some k" "(of_nat k :: u64) = of_nat i" "s1 = opened k d n s"
    using assms(4,5) sys_open_eq [OF assms(1,2), of s] by (auto split: option.splits)
  have r: "3 \<le> k" "k < MAX_FD" using first_free_SomeD [OF k(1)] by auto
  have "k = i" using arg_cong [OF k(2), of unat] r assms(6) by (simp add: unat_of_nat)
  note o = opened_file [OF r assms(3) files_map_data [OF assms(1,4)], of n]
  let ?fill = "\<lambda>t. store64 (st + off_st_size) n (store32 (st + off_st_mode) 0x8124 (memset st 0 sizeof_stat t))"
  have d: "d \<noteq> 0" using files_map_data [OF assms(1,4)] .
  have "sys_stat b (Some p) st s = (0, ?fill s)"
    using assms(4) file_exists_eq [OF assms(1,2)] file_data_eq [OF assms(1,2), of 0] by (simp add: sys_stat_def Let_def)
  moreover have "sys_fstat (int i) st s1 = (0, ?fill s1)"
    using o(2) r d \<open>k = i\<close> k(3) by (simp add: sys_fstat_def Let_def)
  moreover have "mem (?fill s) = mem (?fill s1)"
    using o(3) k(3) by (simp only: mem_store mem_memset)
  moreover have "load32 (st + off_st_mode) (?fill s) = (0x8124 :: u32)"
    by (simp only: load_mode_store_size load_store_widths)
  ultimately show ?thesis by (simp add: load_store_widths)
qed


theorem stat_matches_fstat_witness:
  "load64 (0x700000 + off_st_size) (snd (sys_stat (serial_build two_tables) (Some (ascii ''/init.rb'')) 0x700000 demo_sys)) = (26 :: u64)
   \<and> mem (snd (sys_stat (serial_build two_tables) (Some (ascii ''/init.rb'')) 0x700000 demo_sys)) =
     mem (snd (sys_fstat 3 0x700000 (opened 3 0x500000 26 demo_sys)))"
proof -
  have ok: "tables_ok (b_files (serial_build two_tables))" "length (fd_table demo_sys) = MAX_FD"
    "files_map (b_files (serial_build two_tables)) (ascii ''/init.rb'') = Some (0x500000, 26)"
    by (simp_all add: two_tables_ok demo_simps del: ascii_simps)
  have "sys_open (serial_build two_tables) (Some (ascii ''/init.rb'')) demo_sys = (of_nat 3, opened 3 0x500000 26 demo_sys)"
    using sys_open_eq [OF ok(1) two_tables_ok(2), of demo_sys] ok(3) by (simp add: demo_simps del: ascii_simps)
  from stat_matches_fstat [OF ok(1) two_tables_ok(2) ok(2,3) this, of "0x700000"] show ?thesis
    by (simp del: ascii_simps)
qed


text \<open>
  C30 (functional).  On the serial console, \<open>writev\<close> sends the buffers of the vector one after
  the other, byte for byte and in order, and returns the number of bytes they hold together
  (as long as that number is a non-negative \<open>long\<close>).
\<close>

theorem writev_gathers:
  assumes "fd = 1 \<or> fd = 2" and "sum_list (map (iov_len iov s) [0..<n]) < 2 ^ 63"
  shows "sys_writev (serial_build ft) fd iov (int n) s =
     Ret (of_nat (sum_list (map (iov_len iov s) [0..<n])))
       (s\<lparr>evs := evs s @ com1 (concat (map (iov_bytes iov s) [0..<n]))\<rparr>)"
  using writev_loop_serial [OF assms(1), of 0 iov s "[0..<n]" ft] assms(2)
  by (simp add: sys_writev_def)

definition demo_vector :: bytes where
  "demo_vector = le_bytes 8 (0x500000 :: u64) @ le_bytes 8 (4 :: u64) @ le_bytes 8 (0x500005 :: u64) @ le_bytes 8 (2 :: u64)"

definition demo_iov :: sys where
  "demo_iov = demo_sys\<lparr>mem := mem_put (mem demo_sys) 0x400000 demo_vector\<rparr>"

theorem writev_gathers_witness:
  "sys_writev (serial_build two_tables) 1 0x400000 2 demo_iov =
     Ret 6 (demo_iov\<lparr>evs := com1 (ascii ''puts[1'')\<rparr>)"
proof -
  have len: "length demo_vector = 32" "length demo_script = 26" by (simp_all add: demo_vector_def demo_script_def)
  have word: "load64 (0x400000 + of_nat k) demo_iov = of_le (take 8 (drop k demo_vector))" if "k \<le> 24" for k
    using that by (simp add: load_def demo_iov_def mem_bytes_put_part len)
  have words: "load64 0x400000 demo_iov = (0x500000 :: u64)" "load64 0x400008 demo_iov = (4 :: u64)"
    "load64 0x400010 demo_iov = (0x500005 :: u64)" "load64 0x400018 demo_iov = (2 :: u64)"
    using word [of 0] word [of 8] word [of 16] word [of 24]
    by (simp_all add: demo_vector_def of_le_le_bytes take_bit_word_eq_self del: le_bytes.simps)
  have chars: "mem_bytes (mem demo_iov) (0x500000 + of_nat k) n = take n (drop k demo_script)" if "k + n \<le> 26" for k n
  proof -
    have "mem_bytes (mem demo_iov) (0x500000 + of_nat k) n = mem_bytes (mem_put (\<lambda>_. 0) 0x500000 demo_script) (0x500000 + of_nat k) n"
    proof (rule mem_bytes_cong)
      fix i assume "i < n"
      with that have "unat (0x500000 + of_nat k + of_nat i - 0x400000 :: u64) = 0x100000 + k + i"
        by (simp add: unat_word_ariths unat_of_nat)
      then have "\<not> in_region 0x400000 (length demo_vector) (0x500000 + of_nat k + of_nat i)"
        by (simp only: in_region_def len)
      then show "mem demo_iov (0x500000 + of_nat k + of_nat i) = mem_put (\<lambda>_. 0) 0x500000 demo_script (0x500000 + of_nat k + of_nat i)"
        by (simp add: demo_iov_def demo_sys_def mem_frames(1))
    qed
    then show ?thesis using that by (simp add: mem_bytes_put_part len)
  qed
  have "iov_len 0x400000 demo_iov 0 = 4" "iov_len 0x400000 demo_iov 1 = 2"
    "iov_bytes 0x400000 demo_iov 0 = ascii ''puts''" "iov_bytes 0x400000 demo_iov 1 = ascii ''[1''"
    using chars [of 0 4] chars [of 5 2]
    by (simp_all add: iov_len_def iov_bytes_def words demo_script_def)
  moreover have "evs demo_iov = []" by (simp add: demo_iov_def demo_sys_def)
  ultimately show ?thesis
    using writev_gathers [of 1 "0x400000" demo_iov 2 two_tables] by (simp add: upt_rec)
qed

text \<open>
  C27 (bounds).  Whatever the descriptor, a \<open>read\<close> into \<open>count\<close> bytes at \<open>buf\<close> returns at most
  \<open>count\<close> and changes no memory outside the buffer, on either console; if the table is sound it
  stays sound.
\<close>

theorem sys_read_stays_in_buffer:
  assumes "fd_inv ft s"
  shows "post (\<lambda>n t. n \<le> count \<and> writes_only buf (unat count) s t \<and> fd_inv ft t)
       (sys_read (serial_build ft) fd buf count s)
     \<and> post (\<lambda>n t. n \<le> count \<and> writes_only buf (unat count) s t \<and> fd_inv ft t)
       (sys_read (uefi_build ft) fd buf count s)"
  using post_conj [OF serial_sys.sys_read_bounds serial_sys.sys_read_fd_inv [OF assms]]
    post_conj [OF uefi_sys.sys_read_bounds uefi_sys.sys_read_fd_inv [OF assms]]
  by (simp add: conj_assoc)

theorem sys_read_stays_in_buffer_witness:
  "post (\<lambda>n t. n \<le> 10 \<and> writes_only 0x600000 10 (opened 3 0x500000 26 demo_sys) t)
     (sys_read (serial_build two_tables) 3 0x600000 10 (opened 3 0x500000 26 demo_sys))"
proof -
  have "fd_ok two_tables \<lparr>fe_used = True, fe_data = 0x500000, fe_size = 26, fe_offset = 0\<rparr>"
    using demo_simps(4) by (auto simp: fd_ok_def ran_def)
  then have "fd_inv two_tables (opened 3 0x500000 26 demo_sys)"
    using demo_simps(3) [of two_tables] by (auto simp: opened_def fd_inv_def intro!: fds_ok_update)
  from sys_read_stays_in_buffer [OF this, of 10 "0x600000" 3] show ?thesis
    by (auto elim: post_mono)
qed

text \<open>
  (functional)  \<open>pipe\<close> takes the two lowest free descriptors, marks exactly these as used and
  stores the lower one as the read end and the other as the write end.
\<close>

theorem pipe_slots:
  assumes "length (fd_table s) = MAX_FD" and "first_free (fd_table s) = Some i"
    and "first_free (claim i (fd_table s)) = Some j"
  shows "sys_pipe p s = (0, store32 (p + 4) (of_nat j) (store32 p (of_nat i)
       (s\<lparr>fd_table := claim j (claim i (fd_table s))\<rparr>)))
     \<and> 3 \<le> i \<and> i < j \<and> j < MAX_FD \<and> \<not> fe_used (fd_table s ! i) \<and> \<not> fe_used (fd_table s ! j)
     \<and> load32 p (snd (sys_pipe p s)) = (of_nat i :: u32) \<and> load32 (p + 4) (snd (sys_pipe p s)) = (of_nat j :: u32)"
proof -
  note i = first_free_SomeD [OF assms(2)] and j = first_free_SomeD [OF assms(3)]
  have used_i: "fe_used (claim i (fd_table s) ! i)" and other: "k \<noteq> i \<Longrightarrow> claim i (fd_table s) ! k = fd_table s ! k" for k
    using i assms(1) by (auto simp: claim_def)
  have "j \<noteq> i" using used_i j by auto
  moreover have "\<not> j < i" using i j other [OF \<open>j \<noteq> i\<close>] by auto
  ultimately have lt: "i < j" by simp
  have eq: "sys_pipe p s = (0, store32 (p + 4) (of_nat j) (store32 p (of_nat i)
      (s\<lparr>fd_table := claim j (claim i (fd_table s))\<rparr>)))"
    using assms by (simp add: sys_pipe_eq Let_def)
  have "load32 p (store32 (p + 4) v t) = (load32 p t :: u32)" for v and t :: "'a sys_scheme"
  proof (rule load_store_other)
    fix k :: nat assume "k < 4"
    then consider "k = 0" | "k = 1" | "k = 2" | "k = 3" by linarith
    then show "4 \<le> unat (p - (p + 4) + of_nat k)"
      by cases (simp_all add: unsigned_minus_1_eq_mask mask_eq_exp_minus_1)
  qed
  then show ?thesis using i j lt other [OF \<open>j \<noteq> i\<close>] by (simp add: eq load_store_widths)
qed

theorem pipe_slots_witness:
  "fst (sys_pipe 0x700000 demo_sys) = 0 \<and> load32 0x700000 (snd (sys_pipe 0x700000 demo_sys)) = (3 :: u32)
   \<and> load32 0x700004 (snd (sys_pipe 0x700000 demo_sys)) = (4 :: u32)"
proof -
  have l: "length (fd_table demo_sys) = MAX_FD" by (simp add: demo_simps)
  have i: "first_free (fd_table demo_sys) = Some 3" by (simp add: demo_simps)
  have j: "first_free (claim 3 (fd_table demo_sys)) = Some 4"
  proof (rule first_freeI)
    show "fe_used (claim 3 (fd_table demo_sys) ! k)" if "3 \<le> k" "k < 4" for k
    proof -
      have "k = 3" using that by simp
      then show ?thesis by (simp add: demo_simps claim_def)
    qed
  qed (simp_all add: demo_simps claim_def closed_fd_def)
  note slots = pipe_slots [OF l i j, of "0x700000"]
  have "fst (sys_pipe 0x700000 demo_sys) = 0" using slots by simp
  moreover have "load32 0x700000 (snd (sys_pipe 0x700000 demo_sys)) = (of_nat 3 :: u32)"
    "load32 (0x700000 + 4) (snd (sys_pipe 0x700000 demo_sys)) = (of_nat 4 :: u32)"
    using slots by blast+
  ultimately show ?thesis by simp
qed

text \<open>
  C40 (error).  When exactly one descriptor is free, \<open>pipe\<close> fails with EMFILE but keeps that descriptor marked
  as used: nothing refers to it, and from then on opening an embedded file fails, which before would have
  succeeded.
\<close>

theorem pipe_leaks_slot:
  assumes "length (fd_table s) = MAX_FD" and "first_free (fd_table s) = Some i"
    and "first_free (claim i (fd_table s)) = None"
    and "tables_ok (b_files b)" and "cstring path" and "files_map (b_files b) path = Some (d, n)"
  shows "sys_pipe p s = (- EMFILE, s\<lparr>fd_table := claim i (fd_table s)\<rparr>)
     \<and> sys_open b (Some path) s = (of_nat i, opened i d n s)
     \<and> sys_open b (Some path) (snd (sys_pipe p s)) = (- EMFILE, snd (sys_pipe p s))"
  using assms by (simp add: sys_pipe_eq sys_open_eq Let_def)

definition crowded_fds :: "fd_entry list" where
  "crowded_fds = (replicate 64 (closed_fd\<lparr>fe_used := True\<rparr>))[63 := closed_fd]"

theorem pipe_leaks_slot_witness:
  "sys_pipe 0x700000 (demo_sys\<lparr>fd_table := crowded_fds\<rparr>) =
     (- EMFILE, demo_sys\<lparr>fd_table := claim 63 crowded_fds\<rparr>)"
proof -
  have len: "length crowded_fds = MAX_FD"
    unfolding crowded_fds_def length_list_update length_replicate ..
  have nth: "fe_used (crowded_fds ! k)" if "k < 63" for k
  proof -
    have k: "(63 :: nat) \<noteq> k" "k < 64" using that by auto
    show ?thesis unfolding crowded_fds_def nth_list_update_neq [OF k(1)] nth_replicate [OF k(2)] by simp
  qed
  have last: "crowded_fds ! 63 = closed_fd"
    unfolding crowded_fds_def by (rule nth_list_update_eq) (unfold length_replicate, simp)
  have f: "first_free crowded_fds = Some 63" by (rule first_freeI) (auto simp: last nth closed_fd_def)
  have g: "first_free (claim 63 crowded_fds) = None"
    unfolding first_free_None
  proof (intro allI impI)
    fix j :: nat assume "3 \<le> j \<and> j < MAX_FD"
    then show "fe_used (claim 63 crowded_fds ! j)"
      using nth [of j] len by (cases "j = 63") (auto simp: claim_def)
  qed
  have ok: "files_map (b_files (serial_build two_tables)) (ascii ''/init.rb'') = Some (0x500000, 26)"
      "tables_ok (b_files (serial_build two_tables))"
    by (simp_all add: demo_simps two_tables_ok del: ascii_simps)
  have "length (fd_table (demo_sys\<lparr>fd_table := crowded_fds\<rparr>)) = MAX_FD"
      "first_free (fd_table (demo_sys\<lparr>fd_table := crowded_fds\<rparr>)) = Some 63"
      "first_free (claim 63 (fd_table (demo_sys\<lparr>fd_table := crowded_fds\<rparr>))) = None"
    by (simp_all add: len f g)
  from pipe_leaks_slot [OF this ok(2) two_tables_ok(2) ok(1), of "0x700000"] show ?thesis by simp
qed


text \<open>
  (error)  Duplicating a descriptor that is not open does not fail with EBADF: \<open>dup\<close> reports
  success with a descriptor that is still marked free, so the next \<open>open\<close> returns the same number.
\<close>

theorem dup_of_closed_succeeds:
  assumes "length (fd_table s) = MAX_FD" and "first_free (fd_table s) = Some i"
    and "k < MAX_FD" and "\<not> fe_used (fd_table s ! k)"
    and "tables_ok (b_files b)" and "cstring path" and "files_map (b_files b) path = Some (d, n)"
  shows "fst (sys_dup (int k) s) = of_nat i \<and> fst (sys_open b (Some path) (snd (sys_dup (int k) s))) = of_nat i"
proof -
  note i = first_free_SomeD [OF assms(2)]
  let ?t = "s\<lparr>fd_table := (fd_table s)[i := fd_table s ! k]\<rparr>"
  have dup: "sys_dup (int k) s = (of_nat i, ?t)"
    using assms(2,3) by (simp add: sys_dup_def)
  have "first_free (fd_table ?t) = Some i"
    by (rule first_freeI) (use i assms(1,4) in auto)
  then show ?thesis using sys_open_eq [OF assms(5,6), of ?t] assms(7) dup by simp
qed

theorem dup_of_closed_succeeds_witness:
  "fst (sys_dup 40 demo_sys) = 3
   \<and> fst (sys_open (serial_build two_tables) (Some (ascii ''/init.rb'')) (snd (sys_dup 40 demo_sys))) = 3"
proof -
  have ok: "tables_ok (b_files (serial_build two_tables))"
      "files_map (b_files (serial_build two_tables)) (ascii ''/init.rb'') = Some (0x500000, 26)"
      "length (fd_table demo_sys) = MAX_FD" "first_free (fd_table demo_sys) = Some 3"
      "\<not> fe_used (fd_table demo_sys ! 40)" "(40 :: nat) < MAX_FD"
    by (simp_all add: demo_simps two_tables_ok closed_fd_def del: ascii_simps)
  show ?thesis
    using dup_of_closed_succeeds [OF ok(3,4,6,5,1) two_tables_ok(2) ok(2)] by (simp del: ascii_simps)
qed

end
