(* ===== verification/Mmap.thy ===== *)
theory Mmap
  imports Fd_Files
begin

text \<open>
  The memory system calls of compat/ruby\_on\_bare\_metal\_syscall.c: mmap hands out pages upwards
  from 256 MB to 496 MB and never reuses them, mremap grows a block by copying it, and munmap,
  mprotect, madvise and brk do nothing.  \<open>prot\<close> and the other \<open>int\<close> arguments are 32-bit words.
\<close>

section \<open>Model\<close>

definition sys_mmap ::
  "ptr \<Rightarrow> u64 \<Rightarrow> u32 \<Rightarrow> u32 \<Rightarrow> u32 \<Rightarrow> u64 \<Rightarrow> 'a sys_scheme \<Rightarrow> u64 \<times> 'a sys_scheme" where
  "sys_mmap addr len prot flags fd offset s =
     (let aligned = (mmap_next s + 4095) AND NOT 4095
      in if aligned + len > MMAP_LIMIT then (- ENOMEM, s)
         else let s1 = (if prot AND 3 \<noteq> 0 then memset aligned 0 len s else s)
              in (aligned, s1\<lparr>mmap_next := aligned + len\<rparr>))"

definition sys_munmap :: "ptr \<Rightarrow> u64 \<Rightarrow> 'a sys_scheme \<Rightarrow> u64 \<times> 'a sys_scheme" where
  "sys_munmap addr len s = (0, s)"

definition sys_mprotect :: "ptr \<Rightarrow> u64 \<Rightarrow> u32 \<Rightarrow> 'a sys_scheme \<Rightarrow> u64 \<times> 'a sys_scheme" where
  "sys_mprotect addr len prot s = (0, s)"

definition sys_madvise :: "ptr \<Rightarrow> u64 \<Rightarrow> u32 \<Rightarrow> 'a sys_scheme \<Rightarrow> u64 \<times> 'a sys_scheme" where
  "sys_madvise addr len advice s = (0, s)"

definition sys_mremap :: "ptr \<Rightarrow> u64 \<Rightarrow> u64 \<Rightarrow> u32 \<Rightarrow> 'a sys_scheme \<Rightarrow> u64 \<times> 'a sys_scheme" where
  "sys_mremap old_addr old_size new_size flags s =
     (if old_addr > 0xFFFFFFFFFFFFF000 then sys_mmap 0 new_size 3 0 (- 1) 0 s
      else if new_size \<le> old_size then (old_addr, s)
      else case sys_mmap 0 new_size 3 0 (- 1) 0 s of
             (new_addr, s1) \<Rightarrow>
               if new_addr <s 0 then (new_addr, s1)
               else (new_addr, memcpy new_addr old_addr old_size s1))"

definition sys_brk :: "ptr \<Rightarrow> 'a sys_scheme \<Rightarrow> u64 \<times> 'a sys_scheme" where
  "sys_brk addr s = (- 1, s)"

section \<open>The allocator contract\<close>

definition mmap_inv :: "'a sys_scheme \<Rightarrow> bool" where
  "mmap_inv s \<longleftrightarrow> MMAP_BASE \<le> mmap_next s \<and> mmap_next s \<le> MMAP_LIMIT"

text \<open>The next page boundary at or above the mark.\<close>

definition page_mark :: "'a sys_scheme \<Rightarrow> nat" where
  "page_mark s = round_up 4096 (unat (mmap_next s))"

lemma mask_12: "(4095 :: u64) = mask 12" by (simp add: mask_eq_exp_minus_1)

lemma page_mark_props:
  assumes "mmap_inv s"
  shows "unat (mmap_next s) \<le> page_mark s" and "page_mark s \<le> unat MMAP_LIMIT" and "4096 dvd page_mark s"
proof -
  have le: "unat (mmap_next s) \<le> unat MMAP_LIMIT" using assms by (simp add: mmap_inv_def word_le_nat_alt)
  show "unat (mmap_next s) \<le> page_mark s" and d: "4096 dvd page_mark s"
    unfolding page_mark_def by (simp_all add: round_up_props)
  have "page_mark s < unat MMAP_LIMIT + 4096"
    using le round_up_props(2) [of 4096 "unat (mmap_next s)"] by (simp add: page_mark_def)
  moreover have "unat MMAP_LIMIT = 4096 * 126976" by simp
  ultimately show "page_mark s \<le> unat MMAP_LIMIT" using d by auto
qed

lemma mmap_aligned:
  assumes "mmap_inv s"
  shows "(mmap_next s + 4095) AND NOT 4095 = of_nat (page_mark s)"
proof -
  have "unat (mmap_next s) \<le> unat MMAP_LIMIT" using assms by (simp add: mmap_inv_def word_le_nat_alt)
  then have u: "unat ((mmap_next s + 4095) AND NOT 4095) = page_mark s"
    unfolding mask_12 page_mark_def by (subst unat_align) simp_all
  show ?thesis unfolding u [symmetric] word_of_nat_unat ..
qed

lemma sys_mmap_eq:
  assumes "mmap_inv s" and "unat len \<le> 2 ^ 63"
  shows "sys_mmap addr len prot flags fd offset s =
     (if page_mark s + unat len \<le> unat MMAP_LIMIT
      then (of_nat (page_mark s), (if prot AND 3 \<noteq> 0 then memset (of_nat (page_mark s)) 0 len s else s)
             \<lparr>mmap_next := of_nat (page_mark s + unat len)\<rparr>)
      else (- ENOMEM, s))"
proof -
  have p: "page_mark s \<le> unat MMAP_LIMIT" using page_mark_props(2) [OF assms(1)] .
  then have sum: "unat (of_nat (page_mark s) + len :: u64) = page_mark s + unat len"
    using assms(2) by (simp add: unat_word_ariths unat_of_nat)
  have e: "of_nat (page_mark s) + len = (of_nat (page_mark s + unat len) :: u64)" by simp
  have "(of_nat (page_mark s) + len > MMAP_LIMIT) = (\<not> page_mark s + unat len \<le> unat MMAP_LIMIT)"
    unfolding word_less_nat_alt sum by (simp add: not_le)
  then show ?thesis unfolding sys_mmap_def mmap_aligned [OF assms(1)] Let_def e by simp
qed

text \<open>As an allocator: a negative result is a failure.\<close>

definition mmap_alloc :: "u64 \<times> u32 \<Rightarrow> 'a sys_scheme \<Rightarrow> (ptr \<times> 'a sys_scheme) option" where
  "mmap_alloc r s =
     (case sys_mmap 0 (fst r) (snd r) 0 0 0 s of (p, t) \<Rightarrow> if p <s 0 then None else Some (p, t))"

lemma not_negative: "n < 2 ^ 63 \<Longrightarrow> \<not> (of_nat n :: u64) <s 0"
  by (simp add: word_sless_alt sint_of_nat)

lemma ENOMEM_negative: "(- ENOMEM) <s 0"
  by (simp add: word_sless_alt)

lemma mmap_alloc_eq:
  assumes "mmap_inv s" and "unat (fst r) \<le> 2 ^ 63"
  shows "mmap_alloc r s =
     (if page_mark s + unat (fst r) \<le> unat MMAP_LIMIT then Some (sys_mmap 0 (fst r) (snd r) 0 0 0 s) else None)"
  using page_mark_props(2) [OF assms(1)]
  by (simp add: mmap_alloc_def sys_mmap_eq [OF assms] not_negative ENOMEM_negative)

lemma mmap_serves_block:
  assumes "mmap_inv s" and "unat len \<le> 2 ^ 63"
  shows "mmap_inv (snd (sys_mmap addr len prot flags fd offset s))"
proof (cases "page_mark s + unat len \<le> unat MMAP_LIMIT")
  case True
  then have n: "unat (of_nat (page_mark s + unat len) :: u64) = page_mark s + unat len"
    by (simp add: unat_of_nat del: of_nat_add)
  have "unat MMAP_BASE \<le> page_mark s"
    using assms(1) page_mark_props(1) [OF assms(1)] by (simp add: mmap_inv_def word_le_nat_alt)
  then show ?thesis using True sys_mmap_eq [OF assms]
    by (simp add: mmap_inv_def word_le_nat_alt n del: of_nat_add)
next
  case False
  then show ?thesis using assms sys_mmap_eq [OF assms] by simp
qed

interpretation mmap_heap: bump_allocator mmap_alloc "\<lambda>r. unat (fst r)" "\<lambda>r. unat (fst r) \<le> 2 ^ 63"
  mmap_inv page_mark "unat MMAP_LIMIT" mem
proof unfold_locales
  fix s t :: "'a sys_scheme" and r :: "u64 \<times> u32" and p a :: ptr
  assume inv: "mmap_inv s" and ok: "unat (fst r) \<le> 2 ^ 63" and al: "mmap_alloc r s = Some (p, t)"
  let ?n = "page_mark s + unat (fst r)"
  have le: "?n \<le> unat MMAP_LIMIT"
    and p: "p = of_nat (page_mark s)"
    and t: "t = (if snd r AND 3 \<noteq> 0 then memset p 0 (fst r) s else s)\<lparr>mmap_next := of_nat ?n\<rparr>"
    using al by (auto simp: mmap_alloc_eq [OF inv ok] sys_mmap_eq [OF inv ok] split: if_splits)
  have unat: "unat (mmap_next t) = ?n" "unat p = page_mark s"
    using le by (simp_all add: t p unat_of_nat del: of_nat_add)
  have "unat MMAP_BASE \<le> page_mark s"
    using inv page_mark_props(1) [OF inv] by (simp add: mmap_inv_def word_le_nat_alt)
  then show inv_t: "mmap_inv t"
    unfolding mmap_inv_def word_le_nat_alt unat using le by simp
  show "page_mark s \<le> unat p \<and> unat p + unat (fst r) \<le> page_mark t"
    using page_mark_props(1) [OF inv_t] unat by simp
  show "mem t a = mem s a" if out: "unat a < page_mark s \<or> page_mark t \<le> unat a"
  proof -
    have "\<not> in_region p (unat (fst r)) a"
      using out le unat page_mark_props(1) [OF inv_t] by (subst in_region_iff) auto
    then show ?thesis by (simp add: t mem_memset mem_frames)
  qed
qed (rule page_mark_props(2))


section \<open>Properties\<close>

text \<open>
  (functional)  \<open>mmap\<close> answers a request that fits with a page-aligned address at or above
  the mark, moves the mark to the end of the block, zero-fills it when it is readable or writable,
  and keeps the rest of memory and the descriptors; otherwise it fails with ENOMEM and changes
  nothing.
\<close>

theorem mmap_serves_pages:
  assumes "mmap_inv s" and "unat len \<le> 2 ^ 63"
  shows "if page_mark s + unat len \<le> unat MMAP_LIMIT
    then \<exists>p t. sys_mmap addr len prot flags fd offset s = (p, t) \<and> 4096 dvd unat p
        \<and> mmap_next s \<le> p \<and> unat p < unat (mmap_next s) + 4096
        \<and> unat (mmap_next t) = unat p + unat len \<and> mmap_inv t
        \<and> mem_bytes (mem t) p (unat len) =
            (if prot AND 3 \<noteq> 0 then replicate (unat len) 0 else mem_bytes (mem s) p (unat len))
        \<and> writes_only p (unat len) s t \<and> fd_table t = fd_table s
    else sys_mmap addr len prot flags fd offset s = (- ENOMEM, s)"
proof (cases "page_mark s + unat len \<le> unat MMAP_LIMIT")
  case True
  let ?p = "of_nat (page_mark s) :: ptr"
  let ?t = "(if prot AND 3 \<noteq> 0 then memset ?p 0 len s else s)\<lparr>mmap_next := of_nat (page_mark s + unat len)\<rparr>"
  have p: "unat ?p = page_mark s" and n: "unat (mmap_next ?t) = page_mark s + unat len"
    using True by (simp_all add: unat_of_nat del: of_nat_add)
  have "sys_mmap addr len prot flags fd offset s = (?p, ?t)" using True sys_mmap_eq [OF assms] by simp
  moreover have "4096 dvd unat ?p" "mmap_next s \<le> ?p"
    using page_mark_props [OF assms(1)] by (simp_all only: p word_le_nat_alt)
  moreover have "unat ?p < unat (mmap_next s) + 4096"
    unfolding p by (simp add: page_mark_def round_up_props(2))
  moreover have "mmap_inv ?t"
    using True assms(1) page_mark_props(1) [OF assms(1)] unfolding mmap_inv_def word_le_nat_alt n by simp
  moreover have "mem_bytes (mem ?t) ?p (unat len) =
      (if prot AND 3 \<noteq> 0 then replicate (unat len) 0 else mem_bytes (mem s) ?p (unat len))"
    using unat_bound [of len] by (simp add: mem_memset mem_bytes_set)
  moreover have "writes_only ?p (unat len) s ?t"
    by (simp add: writes_only_def mem_memset mem_frames)
  moreover have "fd_table ?t = fd_table s" by simp
  moreover have "unat (mmap_next ?t) = unat ?p + unat len" using n p by simp
  ultimately show ?thesis
    unfolding if_P [OF True] by (intro exI [of _ ?p] exI [of _ ?t] conjI)
next
  case False
  then show ?thesis using sys_mmap_eq [OF assms] by simp
qed

lemma demo_mmap: "mmap_inv demo_sys" "page_mark demo_sys = 0x10000000" "mmap_next demo_sys = MMAP_BASE"
  by (simp_all add: mmap_inv_def page_mark_def demo_sys_def round_up_dvd)

theorem mmap_serves_pages_witness:
  "(\<exists>p t. sys_mmap 0 8192 3 0x22 (- 1) 0 demo_sys = (p, t) \<and> 4096 dvd unat p \<and> mem_bytes (mem t) p 8192 = replicate 8192 0)
   \<and> sys_mmap 0 0x20000000 3 0x22 (- 1) 0 demo_sys = (- ENOMEM, demo_sys)"
proof
  have three: "(3 :: u32) AND 3 \<noteq> 0" and len: "unat (8192 :: u64) \<le> 2 ^ 63" "unat (8192 :: u64) = 8192"
    "page_mark demo_sys + 8192 \<le> unat MMAP_LIMIT" by (simp_all add: demo_mmap)
  show "\<exists>p t. sys_mmap 0 8192 3 0x22 (- 1) 0 demo_sys = (p, t) \<and> 4096 dvd unat p \<and> mem_bytes (mem t) p 8192 = replicate 8192 0"
    using mmap_serves_pages [OF demo_mmap(1) len(1), of 0 3 "0x22" "- 1" 0]
    unfolding len(2) if_P [OF len(3)] if_P [OF three] by blast
  show "sys_mmap 0 0x20000000 3 0x22 (- 1) 0 demo_sys = (- ENOMEM, demo_sys)"
    using mmap_serves_pages [OF demo_mmap(1), of "0x20000000" 0 3 "0x22" "- 1" 0] by (simp add: demo_mmap)
qed

text \<open>
  C16 (bounds).  The blocks a sequence of \<open>mmap\<close> calls obtains, of any sizes up to 2^63, lie
  between the mark and 496 MB and are pairwise disjoint.
\<close>

theorem mmap_blocks:
  assumes "mmap_inv s" and "\<forall>r \<in> set rs. unat (fst r) \<le> 2 ^ 63"
    and "run_allocs mmap_alloc (\<lambda>r. unat (fst r)) rs s = (bs, t)"
  shows "apart bs \<and> within (page_mark s) (unat MMAP_LIMIT) bs \<and> mmap_inv t"
  using mmap_heap.run_allocs_limit [OF assms] mmap_heap.run_allocs_inv [OF assms] by blast

theorem mmap_blocks_witness:
  "let bs = fst (run_allocs mmap_alloc (\<lambda>r. unat (fst r)) [(100, 3), (0x20000000, 0), (5000, 1)] demo_sys)
   in apart bs \<and> within 0x10000000 0x1F000000 bs"
proof -
  obtain bs t where "run_allocs mmap_alloc (\<lambda>r. unat (fst r)) [(100, 3), (0x20000000, 0), (5000, 1)] demo_sys = (bs, t)"
    by fastforce
  from mmap_blocks [OF demo_mmap(1) _ this] this show ?thesis by (simp add: demo_mmap(2))
qed

text \<open>
  C10 (functional).  Growing a block that was handed out before, that is one below the mmap mark, with \<open>mremap\<close> to a
  size of at most 2^63 that still fits below 496 MB gives a new block, disjoint from the old one, that begins
  with the old contents and is zero beyond them; the old block is still intact.
\<close>

theorem mremap_preserves:
  assumes "mmap_inv s" and "unat new \<le> 2 ^ 63" and "old < new"
    and "unat q + unat old \<le> unat (mmap_next s)" and "page_mark s + unat new \<le> unat MMAP_LIMIT"
  shows "\<exists>p t. sys_mremap q old new flags s = (p, t)
     \<and> mem_bytes (mem t) p (unat new) = mem_bytes (mem s) q (unat old) @ replicate (unat new - unat old) 0
     \<and> mem_bytes (mem t) q (unat old) = mem_bytes (mem s) q (unat old)
     \<and> apart [(q, unat old), (p, unat new)] \<and> mmap_inv t"
proof -
  let ?p = "of_nat (page_mark s) :: ptr"
  define u where "u = (memset ?p 0 new s)\<lparr>mmap_next := of_nat (page_mark s + unat new)\<rparr>"
  have p: "unat ?p = page_mark s" and lt: "unat old < unat new"
    using assms(3,5) by (simp_all add: unat_of_nat word_less_nat_alt)
  have q: "unat q + unat old \<le> page_mark s" using assms(4) page_mark_props(1) [OF assms(1)] by simp
  have mm: "sys_mmap 0 new 3 0 (- 1) 0 s = (?p, u)"
    using assms(5) by (simp add: sys_mmap_eq [OF assms(1,2)] u_def)
  have "\<not> q > 0xFFFFFFFFFFFFF000" using q assms(5) by (simp add: word_less_nat_alt)
  then have eq: "sys_mremap q old new flags s = (?p, memcpy ?p q old u)"
    using assms(3,5) by (simp add: sys_mremap_def mm not_negative not_le [symmetric])
  have out: "\<not> in_region ?p k a" if "in_region q (unat old) a" "k \<le> unat new" for k a
  proof -
    have "in_region q (unat old) a \<longleftrightarrow> unat q \<le> unat a \<and> unat a < unat q + unat old"
      using q assms(5) by (intro in_region_iff) simp
    moreover have "in_region ?p k a \<longleftrightarrow> unat ?p \<le> unat a \<and> unat a < unat ?p + k"
      using that(2) p assms(5) by (intro in_region_iff) simp
    ultimately show ?thesis using that q p by auto
  qed
  have u: "mem u a = mem s a" if "in_region q (unat old) a" for a
    using out [OF that, of "unat new"] by (simp add: u_def mem_memset mem_frames)
  have "mem_bytes (mem (memcpy ?p q old u)) ?p (unat new) ! i =
      (mem_bytes (mem s) q (unat old) @ replicate (unat new - unat old) 0) ! i" if "i < unat new" for i
  proof -
    have i: "unat (?p + of_nat i - ?p) = i" using that assms(2) by (intro unat_offset) simp
    show ?thesis
      using that i u [OF in_region_offset, of i] assms(2)
      by (auto simp: mem_memcpy mem_copy_def nth_append u_def mem_memset mem_set_def)
  qed
  then have "mem_bytes (mem (memcpy ?p q old u)) ?p (unat new) =
      mem_bytes (mem s) q (unat old) @ replicate (unat new - unat old) 0"
    using lt by (intro nth_equalityI) auto
  moreover have "mem_bytes (mem (memcpy ?p q old u)) q (unat old) = mem_bytes (mem s) q (unat old)"
    using out u lt unat_bound [of old] by (intro mem_bytes_frame) (simp_all add: mem_memcpy mem_frames)
  moreover have "mmap_inv (memcpy ?p q old u)"
    using assms(1,5) page_mark_props(1) [OF assms(1)]
    by (simp add: mmap_inv_def u_def memcpy_def word_le_nat_alt unat_of_nat del: of_nat_add)
  ultimately show ?thesis using eq q p by auto
qed


theorem mremap_preserves_witness:
  "\<exists>p t. sys_mremap 0x500000 26 4096 1 demo_sys = (p, t)
     \<and> mem_bytes (mem t) p 4096 = demo_script @ replicate 4070 0"
proof -
  have n: "unat (4096 :: u64) = 4096" "unat (26 :: u64) = 26" "(4096 :: nat) - 26 = 4070" by simp_all
  have h: "(4096 :: nat) \<le> 2 ^ 63" "(26 :: u64) < 4096" "unat (0x500000 :: u64) + 26 \<le> unat (mmap_next demo_sys)"
      "page_mark demo_sys + 4096 \<le> unat MMAP_LIMIT"
    by (simp_all add: demo_mmap)
  note grown = mremap_preserves [OF demo_mmap(1), of 4096 26 "0x500000" 1, unfolded n demo_simps(2), OF h]
  then show ?thesis by blast
qed

text \<open>At boot such a request moves the mark below its region.\<close>

lemma mmap_wraps_at_boot:
  assumes "mmap_next s = MMAP_BASE"
  shows "sys_mmap a (- 4096) 0 flags fd offset s = (MMAP_BASE, s\<lparr>mmap_next := 0x0FFFF000\<rparr>)"
  by (simp add: sys_mmap_def assms Let_def)

text \<open>
  C32 (error).  The limit check adds before it compares and can wrap: once a block has been handed
  out, so that the mark is above 256 MB (and at most 496 MB), reserving 2^64 - 4096 bytes without access rights
  succeeds and moves the mark back by a page, so the next \<open>mmap\<close> of a page returns one that already
  belongs to the memory handed out before.
\<close>

theorem mmap_length_wraps:
  assumes "mmap_inv s" and "MMAP_BASE < mmap_next s"
  shows "\<exists>t. sys_mmap 0 (- 4096) 0 flags fd offset s = (of_nat (page_mark s), t)
     \<and> mmap_inv t \<and> page_mark t = page_mark s - 4096
     \<and> fst (sys_mmap 0 4096 prot flags fd offset t) = of_nat (page_mark s - 4096)"
proof -
  let ?k = "page_mark s - 4096"
  have d: "4096 dvd page_mark s" "page_mark s \<le> unat MMAP_LIMIT" "unat (mmap_next s) \<le> page_mark s"
    using page_mark_props [OF assms(1)] by auto
  then have gt: "unat MMAP_BASE < page_mark s" using assms(2) by (simp add: word_less_nat_alt)
  have base: "4096 dvd unat MMAP_BASE" by simp
  have ge: "unat MMAP_BASE + 4096 \<le> page_mark s"
    using d(1) gt by (elim dvdE) auto
  have eq: "of_nat (page_mark s) + (- 4096) = (of_nat ?k :: u64)"
    using ge by (simp add: of_nat_diff)
  define t where "t = s\<lparr>mmap_next := of_nat ?k\<rparr>"
  have k: "unat (of_nat ?k :: u64) = ?k" using d(2) by (simp add: unat_of_nat)
  have "\<not> (of_nat ?k :: u64) > MMAP_LIMIT" using d(2) unfolding word_less_nat_alt k by simp
  then have call: "sys_mmap 0 (- 4096) 0 flags fd offset s = (of_nat (page_mark s), t)"
    unfolding sys_mmap_def mmap_aligned [OF assms(1)] Let_def eq by (simp add: t_def)
  have n: "unat (mmap_next t) = ?k" unfolding t_def using k by simp
  have inv: "mmap_inv t" unfolding mmap_inv_def word_le_nat_alt n using ge d(2) by auto
  have "round_up 4096 ?k = ?k" using d(1) by (intro round_up_dvd) simp_all
  then have pm: "page_mark t = ?k" by (simp only: page_mark_def [of t] n)
  then have "fst (sys_mmap 0 4096 prot flags fd offset t) = of_nat ?k"
    using sys_mmap_eq [OF inv, of 4096] d(2) ge by simp
  with call inv pm show ?thesis by blast
qed

theorem mmap_length_wraps_witness:
  "\<exists>t. sys_mmap 0 (- 4096) 0 0x22 (- 1) 0 (demo_sys\<lparr>mmap_next := 0x10004000\<rparr>) = (0x10004000, t)
     \<and> fst (sys_mmap 0 4096 3 0x22 (- 1) 0 t) = 0x10003000"
proof -
  have "page_mark (demo_sys\<lparr>mmap_next := 0x10004000\<rparr>) = 0x10004000"
    by (simp add: page_mark_def round_up_dvd)
  then show ?thesis
    using mmap_length_wraps [of "demo_sys\<lparr>mmap_next := 0x10004000\<rparr>" "0x22" "- 1" 0 3]
    by (auto simp: mmap_inv_def)
qed

end
