(* ===== verification/Sys_Misc.thy ===== *)
theory Sys_Misc
  imports Mmap
begin

text \<open>
  The remaining handlers of compat/ruby\_on\_bare\_metal\_syscall.c: clocks, random bytes, terminal
  queries, segment bases, and the readiness calls poll, ppoll and pselect6 that the dispatcher
  has inline.  A C \<open>long\<close> division truncates, hence \<open>sdiv\<close> and \<open>smod\<close> on the signed value.
\<close>

section \<open>Clocks\<close>

definition ldiv :: "u64 \<Rightarrow> int \<Rightarrow> u64" where
  "ldiv a k = word_of_int (sint a sdiv k)"

definition lmod :: "u64 \<Rightarrow> int \<Rightarrow> u64" where
  "lmod a k = word_of_int (sint a smod k)"

definition sys_clock_gettime :: "int \<Rightarrow> ptr \<Rightarrow> 'a sys_scheme \<Rightarrow> u64 \<times> 'a sys_scheme" where
  "sys_clock_gettime clk_id tp s =
     (if tp \<noteq> 0 then
        (case ruby_on_bare_metal_clock_millis s of (ms, s1) \<Rightarrow>
           (0, store64 (tp + 8) (lmod ms 1000 * 1000000) (store64 tp (ldiv ms 1000) s1)))
      else (0, s))"

definition sys_clock_getres :: "int \<Rightarrow> ptr \<Rightarrow> 'a sys_scheme \<Rightarrow> u64 \<times> 'a sys_scheme" where
  "sys_clock_getres clk_id res s =
     (if res \<noteq> 0 then (0, store64 (res + 8) 1000000 (store64 res 0 s)) else (0, s))"

definition sys_gettimeofday :: "ptr \<Rightarrow> ptr \<Rightarrow> 'a sys_scheme \<Rightarrow> u64 \<times> 'a sys_scheme" where
  "sys_gettimeofday tv tz s =
     (if tv \<noteq> 0 then
        (case ruby_on_bare_metal_clock_millis s of (ms, s1) \<Rightarrow>
           (0, store64 (tv + 8) (lmod ms 1000 * 1000) (store64 tv (ldiv ms 1000) s1)))
      else (0, s))"

section \<open>Random bytes\<close>

primrec random_loop :: "ptr \<Rightarrow> nat list \<Rightarrow> u64 \<Rightarrow> 'a sys_scheme \<Rightarrow> 'a sys_scheme" where
  "random_loop p [] seed s = s"
| "random_loop p (i # is) seed s =
     (let seed' = seed * 6364136223846793005 + 1442695040888963407
      in random_loop p is seed' (store8 (p + of_nat i) (ucast (drop_bit 33 seed')) s))"

definition sys_getrandom :: "ptr \<Rightarrow> u64 \<Rightarrow> u32 \<Rightarrow> 'a sys_scheme \<Rightarrow> u64 \<times> 'a sys_scheme" where
  "sys_getrandom buf buflen flags s =
     (case ruby_on_bare_metal_clock_millis s of (ms, s1) \<Rightarrow>
        (buflen, random_loop buf [0..<unat buflen] (ms XOR buf) s1))"

section \<open>Terminal, limits, segment bases\<close>

definition sys_fcntl :: "int \<Rightarrow> int \<Rightarrow> u64 \<Rightarrow> u64" where
  "sys_fcntl fd cmd arg = (if cmd = 1 then 0 else if cmd = 2 then 0 else if cmd = 3 then 2 else if cmd = 4 then 0 else 0)"

definition sys_ioctl :: "int \<Rightarrow> u64 \<Rightarrow> u64 \<Rightarrow> 'a sys_scheme \<Rightarrow> u64 \<times> 'a sys_scheme" where
  "sys_ioctl fd request arg s =
     (if request = 0x5413 then
        (0, if arg \<noteq> 0
            then store16 (arg + 6) 0 (store16 (arg + 4) 0 (store16 (arg + 2) 80 (store16 arg 25 s)))
            else s)
      else if request = 0x5401 then (0, s)
      else (- ENOTTY, s))"

definition sys_arch_prctl :: "int \<Rightarrow> u64 \<Rightarrow> 'a sys_scheme \<Rightarrow> u64 \<times> 'a sys_scheme" where
  "sys_arch_prctl code addr s =
     (if code = 0x1002 then (0, wrmsr 0xC0000100 addr s)
      else if code = 0x1001 then (0, wrmsr 0xC0000101 addr s)
      else (- EINVAL, s))"

definition sys_getpid :: u64 where "sys_getpid = 1"
definition sys_getuid :: u64 where "sys_getuid = 0"
definition sys_getgid :: u64 where "sys_getgid = 0"
definition sys_geteuid :: u64 where "sys_geteuid = 0"
definition sys_getegid :: u64 where "sys_getegid = 0"

definition do_getcwd :: "ptr \<Rightarrow> u64 \<Rightarrow> 'a sys_scheme \<Rightarrow> u64 \<times> 'a sys_scheme" where
  "do_getcwd a1 len s = (a1, if len \<ge> 2 then s\<lparr>mem := mem_put (mem s) a1 [47, 0]\<rparr> else s)"

definition do_getrlimit :: "ptr \<Rightarrow> 'a sys_scheme \<Rightarrow> u64 \<times> 'a sys_scheme" where
  "do_getrlimit rl s =
     (0, if rl \<noteq> 0 then store64 (rl + 8) 1048576 (store64 rl 1048576 s) else s)"

section \<open>Readiness\<close>

text \<open>\<open>struct pollfd\<close>: descriptor, requested and returned events in eight bytes.\<close>

abbreviation poll_fd :: "ptr \<Rightarrow> 'a sys_scheme \<Rightarrow> int" where "poll_fd p s \<equiv> sint (load32 p s :: u32)"
abbreviation poll_events :: "ptr \<Rightarrow> 'a sys_scheme \<Rightarrow> u16" where "poll_events p s \<equiv> load16 (p + 4) s"
abbreviation poll_revents :: "ptr \<Rightarrow> 'a sys_scheme \<Rightarrow> u16" where "poll_revents p s \<equiv> load16 (p + 6) s"

definition poll_entry :: "'a sys_scheme build \<Rightarrow> ptr \<Rightarrow> 'a sys_scheme \<Rightarrow> 'a sys_scheme" where
  "poll_entry b p s =
     (let s1 = store16 (p + 6) 0 s;
          s2 = (if poll_fd p s1 = 0 \<and> poll_events p s1 AND 1 \<noteq> 0 then
                  (case c_data_ready (b_con b) s1 of (r, s') \<Rightarrow>
                     if r \<noteq> 0 then store16 (p + 6) (poll_revents p s' OR 1) s' else s')
                else s1)
      in if poll_fd p s2 = 1 \<or> poll_fd p s2 = 2 then
           (if poll_events p s2 AND 4 \<noteq> 0 then store16 (p + 6) (poll_revents p s2 OR 4) s2 else s2)
         else s2)"

primrec poll_loop :: "'a sys_scheme build \<Rightarrow> ptr \<Rightarrow> nat list \<Rightarrow> 'a sys_scheme \<Rightarrow> 'a sys_scheme" where
  "poll_loop b fds [] s = s"
| "poll_loop b fds (i # is) s = poll_loop b fds is (poll_entry b (fds + of_nat (8 * i)) s)"

definition do_poll :: "'a sys_scheme build \<Rightarrow> ptr \<Rightarrow> int \<Rightarrow> 'a sys_scheme \<Rightarrow> u64 \<times> 'a sys_scheme" where
  "do_poll b fds nfds s = (1, poll_loop b fds [0..<nat nfds] s)"

definition ppoll_entry :: "'a sys_scheme build \<Rightarrow> ptr \<Rightarrow> nat \<Rightarrow> 'a sys_scheme \<Rightarrow> nat \<times> 'a sys_scheme" where
  "ppoll_entry b p ready s =
     (let s1 = store16 (p + 6) 0 s;
          (ready2, s2) =
            (if poll_fd p s1 = 0 \<and> poll_events p s1 AND 1 \<noteq> 0 then
               (case c_data_ready (b_con b) s1 of (r, s') \<Rightarrow>
                  if r \<noteq> 0 then (Suc ready, store16 (p + 6) (poll_revents p s' OR 1) s') else (ready, s'))
             else (ready, s1))
      in if (poll_fd p s2 = 1 \<or> poll_fd p s2 = 2) \<and> poll_events p s2 AND 4 \<noteq> 0
         then (Suc ready2, store16 (p + 6) (poll_revents p s2 OR 4) s2) else (ready2, s2))"

primrec ppoll_loop ::
  "'a sys_scheme build \<Rightarrow> ptr \<Rightarrow> nat list \<Rightarrow> nat \<Rightarrow> 'a sys_scheme \<Rightarrow> nat \<times> 'a sys_scheme" where
  "ppoll_loop b fds [] ready s = (ready, s)"
| "ppoll_loop b fds (i # is) ready s =
     (case ppoll_entry b (fds + of_nat (8 * i)) ready s of (ready', s') \<Rightarrow> ppoll_loop b fds is ready' s')"

definition do_ppoll :: "'a sys_scheme build \<Rightarrow> ptr \<Rightarrow> int \<Rightarrow> 'a sys_scheme \<Rightarrow> u64 \<times> 'a sys_scheme" where
  "do_ppoll b fds nfds s =
     (case ppoll_loop b fds [0..<nat nfds] 0 s of (ready, t) \<Rightarrow> (of_nat ready, t))"

definition do_pselect6 ::
  "'a sys_scheme build \<Rightarrow> int \<Rightarrow> ptr \<Rightarrow> ptr \<Rightarrow> 'a sys_scheme \<Rightarrow> u64 \<times> 'a sys_scheme" where
  "do_pselect6 b nfds readfds writefds s =
     (let (ready1, s1) =
        (if readfds \<noteq> 0 \<and> nfds > 0 \<and> load64 readfds s AND (1 :: u64) \<noteq> 0 then
           (case c_data_ready (b_con b) s of (r, s') \<Rightarrow>
              if r \<noteq> 0 then (1, store64 readfds (1 :: u64) s') else (0, store64 readfds (0 :: u64) s'))
         else (0, s))
      in if writefds \<noteq> 0 \<and> nfds > 2 then
           (let w = load64 writefds s1 AND (6 :: u64);
                s2 = store64 writefds w s1
            in ((if w \<noteq> 0 then ready1 + 1 else ready1), s2))
         else (ready1, s1))"


section \<open>Lemmas\<close>

text \<open>Loads depend only on the bytes they read.\<close>

lemma load_cong: "(\<And>i. i < n \<Longrightarrow> mem t (p + of_nat i) = mem s (p + of_nat i)) \<Longrightarrow> load n p t = load n p s"
  by (simp add: load_def cong: mem_bytes_cong)

lemma in_region_index:
  assumes "a + n \<le> 2 ^ 64" and "x < 2 ^ 64"
  shows "in_region (p + of_nat a) n (p + of_nat x) \<longleftrightarrow> a \<le> x \<and> x < a + n"
proof -
  have e: "p + of_nat x - (p + of_nat a) = (of_nat x - of_nat a :: u64)" by simp
  show ?thesis
  proof (cases "n = 0")
    case False
    then have a: "a < 2 ^ 64" using assms(1) by simp
    show ?thesis using a assms by (auto simp: in_region_def e unat_sub_if' unat_of_nat)
  qed (auto simp: in_region_def)
qed

text \<open>A cell of the vector: entry \<open>i\<close>'s returned events.\<close>

abbreviation cell :: "ptr \<Rightarrow> ptr \<Rightarrow> bool" where "cell p a \<equiv> in_region (p + 6) 2 a"

definition outside_cell :: "ptr \<Rightarrow> 'a sys_scheme \<Rightarrow> 'a sys_scheme \<Rightarrow> bool" where
  "outside_cell p s t \<longleftrightarrow> (\<forall>a. \<not> cell p a \<longrightarrow> mem t a = mem s a)"

lemma cell_index: "i < 6 \<Longrightarrow> \<not> cell p (p + of_nat i)"
  using in_region_index [of 6 2 i p] by simp

lemma outside_cell_loads:
  assumes "outside_cell p s t"
  shows "load32 p t = (load32 p s :: u32)" and "load16 (p + 4) t = (load16 (p + 4) s :: u16)"
proof -
  show "load32 p t = (load32 p s :: u32)"
    using assms by (intro load_cong) (simp add: outside_cell_def cell_index)
  show "load16 (p + 4) t = (load16 (p + 4) s :: u16)"
  proof (intro load_cong)
    fix i :: nat assume "i < 2"
    then have "\<not> cell p (p + of_nat (4 + i))" by (intro cell_index) simp
    then show "mem t (p + 4 + of_nat i) = mem s (p + 4 + of_nat i)"
      using assms by (simp add: outside_cell_def add.assoc)
  qed
qed

lemma outside_cell_store: "outside_cell p s t \<Longrightarrow> outside_cell p s (store16 (p + 6) w t)"
  by (simp add: outside_cell_def mem_store mem_frames)

lemma outside_cell_refl: "outside_cell p s s"
  by (simp add: outside_cell_def)

lemma outside_cell_quiet: "outside_cell p s t \<Longrightarrow> quiet t u \<Longrightarrow> outside_cell p s u"
  by (simp add: outside_cell_def quiet_def)

lemma quiet_load: "quiet s t \<Longrightarrow> load n p t = load n p s"
  by (simp add: quiet_def load_def)

lemma poll_ppoll_entry: "snd (ppoll_entry b p ready s) = poll_entry b p s"
  by (auto simp: poll_entry_def ppoll_entry_def Let_def split: prod.split)

lemma poll_ppoll_loop: "snd (ppoll_loop b fds is ready s) = poll_loop b fds is s"
proof (induction "is" arbitrary: ready s)
  case (Cons i "is")
  then show ?case using poll_ppoll_entry [of b "fds + of_nat (8 * i)" ready s]
    by (simp add: case_prod_beta)
qed simp

lemma poll_ignores: "snd (do_ppoll b fds n s) = snd (do_poll b fds n s)"
  using poll_ppoll_loop [of b fds "[0..<nat n]" 0 s]
  by (simp add: do_poll_def do_ppoll_def case_prod_beta)

text \<open>
  What an entry asks for, and the returned events it is due when the console has data or not:
  input for descriptor 0, output for 1 and 2, which can always take it.
\<close>

definition wants_input :: "ptr \<Rightarrow> 'a sys_scheme \<Rightarrow> bool" where
  "wants_input p s \<longleftrightarrow> poll_fd p s = 0 \<and> poll_events p s AND 1 \<noteq> 0"

definition wants_output :: "ptr \<Rightarrow> 'a sys_scheme \<Rightarrow> bool" where
  "wants_output p s \<longleftrightarrow> (poll_fd p s = 1 \<or> poll_fd p s = 2) \<and> poll_events p s AND 4 \<noteq> 0"

definition due_events :: "ptr \<Rightarrow> bool \<Rightarrow> 'a sys_scheme \<Rightarrow> u16" where
  "due_events p data s = (if wants_input p s \<and> data then 1 else if wants_output p s then 4 else 0)"

text \<open>Entry \<open>i\<close> of a vector, and the byte offsets of the returned events of the entries.\<close>

abbreviation entry_at :: "ptr \<Rightarrow> nat \<Rightarrow> ptr" where "entry_at fds i \<equiv> fds + of_nat (8 * i)"

definition in_cells :: "nat \<Rightarrow> nat \<Rightarrow> nat \<Rightarrow> bool" where
  "in_cells k n x \<longleftrightarrow> (\<exists>i \<in> {k..<n}. 8 * i + 6 \<le> x \<and> x < 8 * i + 8)"

lemma entry_load:
  assumes "\<And>j. j < n \<Longrightarrow> mem t (fds + of_nat (8 * i + (o' + j))) = mem s (fds + of_nat (8 * i + (o' + j)))"
    and "q = of_nat o'"
  shows "load n (entry_at fds i + q) t = load n (entry_at fds i + q) s"
  using assms by (intro load_cong) (simp add: algebra_simps)

lemma wants_cong:
  assumes "load32 p t = (load32 p s :: u32)" and "load16 (p + 4) t = (load16 (p + 4) s :: u16)"
  shows "wants_input p t = wants_input p s" and "wants_output p t = wants_output p s"
    and "due_events p d t = due_events p d s"
  by (simp_all add: wants_input_def wants_output_def due_events_def assms)

lemma ppoll_entry_result:
  assumes "ppoll_entry (serial_build ft) p ready s = (ready', t)"
  shows "outside_cell p s t" and "ready' = ready + of_bool (poll_revents p t \<noteq> 0)"
    and "poll_revents p t = due_events p (rx_ready s (polls s)) s"
    and "rx_ready t = rx_ready s" and "polls t = polls s + of_bool (wants_input p s)"
proof -
  obtain r s' where r: "serial_data_ready (store16 (p + 6) 0 s) = (r, s')" by fastforce
  have rx: "rx_ready (store16 q w u) = rx_ready u" "polls (store16 q w u) = polls u" for q w and u :: "'a sys_scheme"
    by (simp_all add: rx_ready_def store_def fun_eq_iff)
  have ready: "r \<noteq> 0 \<longleftrightarrow> rx_ready s (polls s)" and s': "s' = polled 1 (store16 (p + 6) 0 s)"
    using serial_data_ready_eq [of "store16 (p + 6) 0 s"] by (simp_all add: r rx)
  have q: "quiet (store16 (p + 6) (0 :: u16) s) s'" by (simp add: s' quiet_def polled_def)
  have one: "outside_cell p s (store16 (p + 6) w s)" for w by (rule outside_cell_store [OF outside_cell_refl])
  have out: "outside_cell p s s'" "outside_cell p s (store16 (p + 6) w s')" for w
    using outside_cell_quiet [OF one q] outside_cell_store by blast+
  note loads = outside_cell_loads [OF one] outside_cell_loads [OF out(1)] outside_cell_loads [OF out(2)]
  have rev: "poll_revents p s' = 0" by (simp add: quiet_load [OF q] load_store_widths)
  then have rev': "s' = u \<Longrightarrow> poll_revents p u = 0" for u by simp
  have rx': "s' = u \<Longrightarrow> rx_ready u = rx_ready s" "s' = u \<Longrightarrow> polls u = Suc (polls s)" for u
    using rx [of "p + 6" 0 s] by (auto simp: s')
  note defs = due_events_def wants_input_def wants_output_def
  show "outside_cell p s t" "ready' = ready + of_bool (poll_revents p t \<noteq> 0)"
    "poll_revents p t = due_events p (rx_ready s (polls s)) s"
    "rx_ready t = rx_ready s" "polls t = polls s + of_bool (wants_input p s)"
    using assms one out
    by (auto simp: ppoll_entry_def Let_def r loads rev rev' rx rx' ready load_store_widths outside_cell_store
        defs split: if_splits)
qed

lemma card_from:
  assumes "k < n"
  shows "card {i \<in> {k..<n}. P i} = of_bool (P k) + card {i \<in> {Suc k..<n}. P i}"
proof -
  have "{k..<n} = insert k {Suc k..<n}" using assms by auto
  then have "{i \<in> {k..<n}. P i} = (if P k then insert k else id) {i \<in> {Suc k..<n}. P i}" by auto
  then show ?thesis by simp
qed

text \<open>
  The whole vector: the entries that ask for input look at the line status one after the other,
  and what differs afterwards lies in the cells of the entries visited.
\<close>

lemma ppoll_loop_result:
  assumes "8 * n \<le> 2 ^ 64" and "ppoll_loop (serial_build ft) fds [k..<n] ready s = (ready', t)"
  shows "ready' = ready + card {i \<in> {k..<n}. poll_revents (entry_at fds i) t \<noteq> 0}
     \<and> (\<forall>i \<in> {k..<n}. poll_revents (entry_at fds i) t =
          due_events (entry_at fds i) (rx_ready s (polls s + card {j \<in> {k..<i}. wants_input (entry_at fds j) s})) s)
     \<and> (\<forall>x < 2 ^ 64. \<not> in_cells k n x \<longrightarrow> mem t (fds + of_nat x) = mem s (fds + of_nat x))"
  using assms(2)
proof (induction "n - k" arbitrary: k ready s)
  case 0
  then have "[k..<n] = []" "{k..<n} = {}" by simp_all
  with 0 show ?case by simp
next
  case (Suc d)
  have lt: "k < n" using Suc.hyps(2) by simp
  obtain r1 s1 where e: "ppoll_entry (serial_build ft) (entry_at fds k) ready s = (r1, s1)" by fastforce
  then have loop: "ppoll_loop (serial_build ft) fds [Suc k..<n] r1 s1 = (ready', t)"
    using Suc.prems lt by (simp add: upt_conv_Cons)
  note IH = Suc.hyps(1) [of "Suc k", OF _ loop]
  have d: "d = n - Suc k" using Suc.hyps(2) by simp
  note one = ppoll_entry_result [OF e]
  have s1: "mem s1 (fds + of_nat x) = mem s (fds + of_nat x)" if "x < 2 ^ 64" "\<not> (8 * k + 6 \<le> x \<and> x < 8 * k + 8)" for x
  proof -
    have "cell (entry_at fds k) (fds + of_nat x) \<longleftrightarrow> 8 * k + 6 \<le> x \<and> x < 8 * k + 6 + 2"
      using in_region_index [of "8 * k + 6" 2 x fds] that(1) lt assms(1) by (simp add: add.assoc)
    then have "\<not> cell (entry_at fds k) (fds + of_nat x)" using that(2) by linarith
    then show ?thesis using one(1) by (simp add: outside_cell_def)
  qed
  have rest: "mem t (fds + of_nat x) = mem s1 (fds + of_nat x)" if "x < 2 ^ 64" "\<not> in_cells (Suc k) n x" for x
    using IH [OF d] that by blast
  have tk: "poll_revents (entry_at fds k) t = (poll_revents (entry_at fds k) s1 :: u16)"
  proof (rule entry_load [where o' = 6 and n = 2])
    fix j :: nat assume "j < 2"
    with lt assms(1) show "mem t (fds + of_nat (8 * k + (6 + j))) = mem s1 (fds + of_nat (8 * k + (6 + j)))"
      by (intro rest) (auto simp: in_cells_def)
  qed simp
  have later: "mem s1 (fds + of_nat (8 * i + j)) = mem s (fds + of_nat (8 * i + j))"
    if "i \<in> {Suc k..<n}" "j < 8" for i j
    using that assms(1) by (intro s1) auto
  have same: "wants_input (entry_at fds i) s1 = wants_input (entry_at fds i) s"
    "due_events (entry_at fds i) c s1 = due_events (entry_at fds i) c s" if "i \<in> {Suc k..<n}" for i c
  proof -
    have l: "load32 (entry_at fds i + 0) s1 = (load32 (entry_at fds i + 0) s :: u32)"
      by (rule entry_load [where o' = 0 and n = 4]) (simp_all only: later [OF that] add_0, simp_all add: later [OF that])
    have m: "load16 (entry_at fds i + 4) s1 = (load16 (entry_at fds i + 4) s :: u16)"
      by (rule entry_load [where o' = 4 and n = 2]) (simp_all only: add_less_mono later [OF that], simp_all add: later [OF that])
    show "wants_input (entry_at fds i) s1 = wants_input (entry_at fds i) s"
      "due_events (entry_at fds i) c s1 = due_events (entry_at fds i) c s"
      using wants_cong [OF l [unfolded add_0_right] m] by simp_all
  qed
  have looks: "polls s1 + card {j \<in> {Suc k..<i}. wants_input (entry_at fds j) s1} =
      polls s + card {j \<in> {k..<i}. wants_input (entry_at fds j) s}" if "i \<in> {Suc k..<n}" for i
  proof -
    have "{j \<in> {Suc k..<i}. wants_input (entry_at fds j) s1} = {j \<in> {Suc k..<i}. wants_input (entry_at fds j) s}"
      using that by (intro Collect_cong conj_cong refl same(1)) auto
    then show ?thesis using that one(5) card_from [of k i] by simp
  qed
  show ?case
  proof (intro conjI)
    show "ready' = ready + card {i \<in> {k..<n}. poll_revents (entry_at fds i) t \<noteq> 0}"
      using IH [OF d] one(2) unfolding card_from [OF lt] tk by linarith
    show "\<forall>i \<in> {k..<n}. poll_revents (entry_at fds i) t =
        due_events (entry_at fds i) (rx_ready s (polls s + card {j \<in> {k..<i}. wants_input (entry_at fds j) s})) s"
    proof
      fix i assume i: "i \<in> {k..<n}"
      show "poll_revents (entry_at fds i) t =
        due_events (entry_at fds i) (rx_ready s (polls s + card {j \<in> {k..<i}. wants_input (entry_at fds j) s})) s"
      proof (cases "i = k")
        case True
        show ?thesis unfolding True tk one(3) by simp
      next
        case False
        with i have i': "i \<in> {Suc k..<n}" by auto
        from IH [OF d, THEN conjunct2, THEN conjunct1, THEN bspec, OF i'] show ?thesis
          by (simp only: one(4) looks [OF i'] same(2) [OF i'])
      qed
    qed
    show "\<forall>x < 2 ^ 64. \<not> in_cells k n x \<longrightarrow> mem t (fds + of_nat x) = mem s (fds + of_nat x)"
      using IH [OF d] s1 lt by (auto simp: in_cells_def)
  qed
qed

lemma ldiv_nat: "m < 2 ^ 63 \<Longrightarrow> ldiv (of_nat m) (int k) = of_nat (m div k)"
  by (cases "m = 0 \<or> k = 0") (auto simp: ldiv_def sint_of_nat signed_divide_int_def zdiv_int [symmetric])

lemma lmod_nat: "m < 2 ^ 63 \<Longrightarrow> lmod (of_nat m) (int k) = of_nat (m mod k)"
  by (cases "m = 0") (auto simp: lmod_def sint_of_nat signed_modulo_int_def zmod_int [symmetric])

text \<open>The byte stream of the generator from a seed.\<close>

primrec lcg_bytes :: "nat \<Rightarrow> u64 \<Rightarrow> bytes" where
  "lcg_bytes 0 seed = []"
| "lcg_bytes (Suc n) seed =
     (let seed' = seed * 6364136223846793005 + 1442695040888963407
      in ucast (drop_bit 33 seed') # lcg_bytes n seed')"

lemma length_lcg_bytes [simp]: "length (lcg_bytes n seed) = n"
  by (induction n arbitrary: seed) (simp_all add: Let_def)

lemma random_loop_eq:
  "n < 2 ^ 64 \<Longrightarrow> random_loop p [i..<n] seed s = s\<lparr>mem := mem_put (mem s) (p + of_nat i) (lcg_bytes (n - i) seed)\<rparr>"
proof (induction "n - i" arbitrary: i seed s)
  case (Suc d)
  define seed' where "seed' = seed * 6364136223846793005 + 1442695040888963407"
  define c where "c = (ucast (drop_bit 33 seed') :: u8)"
  have lt: "i < n" and d: "d = n - Suc i" using Suc.hyps(2) by simp_all
  then have "random_loop p [i..<n] seed s = random_loop p [Suc i..<n] seed' (store8 (p + of_nat i) c s)"
    by (simp add: upt_conv_Cons seed'_def c_def Let_def del: One_nat_def)
  also have "\<dots> = s\<lparr>mem := mem_put (mem_put (mem s) (p + of_nat i) [c]) (p + of_nat i + of_nat (length [c])) (lcg_bytes (n - Suc i) seed')\<rparr>"
    using Suc.hyps(1) [OF d Suc.prems] by (simp add: store_def algebra_simps)
  also have "\<dots> = s\<lparr>mem := mem_put (mem s) (p + of_nat i) ([c] @ lcg_bytes (n - Suc i) seed')\<rparr>"
    using Suc.prems by (subst mem_put_append) simp_all
  also have "[c] @ lcg_bytes (n - Suc i) seed' = lcg_bytes (n - i) seed"
    using lt by (simp add: Suc_diff_Suc [symmetric] seed'_def c_def Let_def)
  finally show ?case .
qed simp

section \<open>Properties\<close>

text \<open>
  (functional)  \<open>clock_gettime\<close> stores the millisecond clock as seconds and nanoseconds with
  the nanoseconds below 10^9, losing nothing, and \<open>gettimeofday\<close> at the same instant stores the
  same time in microseconds.
\<close>

theorem clock_gettime_splits:
  assumes "tp \<noteq> 0" and "ruby_on_bare_metal_clock_millis s = (ms, s1)" and "unat ms < 2 ^ 63"
  shows "\<exists>t u. sys_clock_gettime clk tp s = (0, t) \<and> sys_gettimeofday tp tz s = (0, u)
     \<and> unat (load64 tp t :: u64) * 1000 + unat (load64 (tp + 8) t :: u64) div 1000000 = unat ms
     \<and> unat (load64 (tp + 8) t :: u64) < 10 ^ 9
     \<and> (load64 tp u :: u64) = load64 tp t
     \<and> unat (load64 (tp + 8) u :: u64) * 1000 = unat (load64 (tp + 8) t :: u64)"
proof -
  define m where "m = unat ms"
  have ms: "ms = of_nat m" and m: "m < 2 ^ 63" using assms(3) by (simp_all add: m_def)
  have "m div 1000 < 2 ^ 64" using m by simp
  then have d: "unat (of_nat (m div 1000) :: u64) = m div 1000" by (simp add: unat_of_nat)
  have lt: "m mod 1000 < 1000" by simp
  then have n: "unat (of_nat (m mod 1000) * 1000000 :: u64) = m mod 1000 * 1000000"
    and u: "unat (of_nat (m mod 1000) * 1000 :: u64) = m mod 1000 * 1000"
    by (simp_all add: unat_word_ariths unat_of_nat)
  have far: "load64 tp (store64 (tp + 8) v s) = (load64 tp s :: u64)" for v :: u64 and s :: "'a sys_scheme"
  proof (rule load_store_other)
    fix i :: nat assume "i < 8"
    then have "in_region (tp + of_nat 8) 8 (tp + of_nat i) = False" by (subst in_region_index) auto
    then show "8 \<le> unat (tp - (tp + 8) + of_nat i)" by (simp add: in_region_def not_less)
  qed
  have q: "ldiv ms 1000 = of_nat (m div 1000)" "lmod ms 1000 = of_nat (m mod 1000)"
    using ldiv_nat [OF m, of 1000] lmod_nat [OF m, of 1000] by (simp_all add: ms)
  show ?thesis
    using assms(1) lt
    by (simp add: sys_clock_gettime_def sys_gettimeofday_def assms(2) far load_store_widths q d n u m_def [symmetric])
qed

theorem clock_gettime_splits_witness:
  "\<exists>t. sys_clock_gettime 1 0x600000 (demo_sys\<lparr>tsc_in := (\<lambda>_. 1234567)\<rparr>) = (0, t)
     \<and> unat (load64 0x600000 t :: u64) * 1000 + unat (load64 0x600008 t :: u64) div 1000000 = 1234"
proof -
  let ?s = "demo_sys\<lparr>tsc_in := (\<lambda>_. 1234567)\<rparr>"
  have clock: "ruby_on_bare_metal_clock_millis ?s = (1234, ?s\<lparr>tsc_pos := 1\<rparr>)"
    by (simp add: clock_eq demo_sys_def)
  show ?thesis using clock_gettime_splits [OF _ clock, of "0x600000" 1 0] by auto
qed

text \<open>
  (functional)  \<open>getrandom\<close> fills exactly the requested bytes with the stream of a linear
  congruential generator whose seed is the millisecond clock combined with the buffer address:
  within one millisecond, the same buffer receives the same bytes.
\<close>

theorem getrandom_stream:
  "sys_getrandom buf n flags s =
     (case ruby_on_bare_metal_clock_millis s of (ms, s1) \<Rightarrow>
        (n, s1\<lparr>mem := mem_put (mem s) buf (lcg_bytes (unat n) (ms XOR buf))\<rparr>))"
  using clock_frame(1) [of s] unat_bound [of n]
  by (auto simp: sys_getrandom_def random_loop_eq split: prod.split)

text \<open>
  C36 (functional).  On the serial build, \<open>ppoll\<close> of fewer than 2^31 entries sets an entry's returned
  events to exactly: 1 when it asks for input on descriptor 0 and the line status it looked at
  says that a byte has arrived (each such entry takes the next reading of the status port); 4
  when it asks for output on descriptor 1 or 2; 0 otherwise, whatever stood there.  It returns
  the number of entries that got an event, and the entries' other fields are as they were.
\<close>

theorem ppoll_counts_ready:
  assumes "nfds < 2 ^ 31" and "do_ppoll (serial_build ft) fds nfds s = (r, t)"
  shows "(\<forall>i \<in> {0..<nat nfds}. (poll_revents (entry_at fds i) t :: u16) =
       (if poll_fd (entry_at fds i) s = 0 \<and> poll_events (entry_at fds i) s AND 1 \<noteq> 0
           \<and> port_in s 0x3FD (port_pos s 0x3FD + card {j \<in> {0..<i}. poll_fd (entry_at fds j) s = 0
               \<and> poll_events (entry_at fds j) s AND 1 \<noteq> 0}) AND 1 \<noteq> 0 then 1
        else if poll_fd (entry_at fds i) s \<in> {1, 2} \<and> poll_events (entry_at fds i) s AND 4 \<noteq> 0 then 4
        else 0))
     \<and> unat r = card {i \<in> {0..<nat nfds}. poll_revents (entry_at fds i) t \<noteq> 0}
     \<and> (\<forall>i \<in> {0..<nat nfds}. poll_fd (entry_at fds i) t = poll_fd (entry_at fds i) s
          \<and> poll_events (entry_at fds i) t = poll_events (entry_at fds i) s)"
proof -
  have n: "nat nfds < 2 ^ 31" using assms(1) by simp
  obtain k where k: "ppoll_loop (serial_build ft) fds [0..<nat nfds] 0 s = (k, t)" "r = of_nat k"
    using assms(2) by (auto simp: do_ppoll_def split: prod.splits)
  have bound: "8 * nat nfds \<le> 2 ^ 64" using n by simp
  note res = ppoll_loop_result [OF bound k(1)]
  have "card {i \<in> {0..<nat nfds}. poll_revents (entry_at fds i) t \<noteq> 0} \<le> card {0..<nat nfds}"
    by (intro card_mono) auto
  then have r: "unat r = card {i \<in> {0..<nat nfds}. poll_revents (entry_at fds i) t \<noteq> 0}"
    using res n k(2) by (simp add: unat_of_nat)
  have kept: "mem t (fds + of_nat (8 * i + j)) = mem s (fds + of_nat (8 * i + j))" if "i \<in> {0..<nat nfds}" "j < 6" for i j
  proof -
    have "8 * i + j < 2 ^ 64" using that bound by simp
    moreover have "\<not> in_cells 0 (nat nfds) (8 * i + j)"
    proof
      assume "in_cells 0 (nat nfds) (8 * i + j)"
      then obtain l where "8 * l + 6 \<le> 8 * i + j" "8 * i + j < 8 * l + 8" by (auto simp: in_cells_def)
      with that(2) show False by presburger
    qed
    ultimately show ?thesis using res by blast
  qed
  have fields: "poll_fd (entry_at fds i) t = poll_fd (entry_at fds i) s
       \<and> poll_events (entry_at fds i) t = (poll_events (entry_at fds i) s :: u16)" if "i \<in> {0..<nat nfds}" for i
  proof
    have "load32 (entry_at fds i + 0) t = (load32 (entry_at fds i + 0) s :: u32)"
      by (rule entry_load [where o' = 0 and n = 4]) (simp_all only: add_0 kept [OF that], simp)
    then show "poll_fd (entry_at fds i) t = poll_fd (entry_at fds i) s" by simp
    show "poll_events (entry_at fds i) t = (poll_events (entry_at fds i) s :: u16)"
      by (rule entry_load [where o' = 4 and n = 2]) (simp_all only: kept [OF that], simp_all)
  qed
  show ?thesis
    using res r fields by (simp add: due_events_def wants_input_def wants_output_def rx_ready_def)
qed

text \<open>A vector of two entries: input on descriptor 0, with a stale 7 in the last field, and input and output on 1.\<close>

definition poll_demo :: sys where
  "poll_demo = blank_sys\<lparr>port_in := (\<lambda>_ k. if k = 0 then 0x61 else 0),
     mem := mem_put (\<lambda>_. 0) 0x600000 [0, 0, 0, 0, 1, 0, 7, 0, 1, 0, 0, 0, 5, 0, 0, 0]\<rparr>"

theorem ppoll_counts_ready_witness:
  "case do_ppoll (serial_build two_tables) 0x600000 2 poll_demo of (r, t) \<Rightarrow>
     unat r = 2 \<and> (poll_revents 0x600000 t :: u16) = 1 \<and> (poll_revents 0x600008 t :: u16) = 4"
proof -
  obtain r t where d: "do_ppoll (serial_build two_tables) 0x600000 2 poll_demo = (r, t)" by fastforce
  have m: "mem poll_demo = mem_put (\<lambda>_. 0) 0x600000 [0, 0, 0, 0, 1, 0, 7, 0, 1, 0, 0, 0, 5, 0, 0, 0]"
    "port_in poll_demo = (\<lambda>_ k. if k = 0 then 0x61 else 0)" "port_pos poll_demo = (\<lambda>_. 0)"
    by (simp_all add: poll_demo_def blank_sys_def uefi.defs blank_uefi_def blank_hw_def hw.defs)
  have f: "poll_fd 0x600000 poll_demo = 0" "poll_events 0x600000 poll_demo = (1 :: u16)"
    "poll_fd 0x600008 poll_demo = 1" "poll_events 0x600008 poll_demo = (5 :: u16)"
    by (simp_all add: load_def mem_bytes_def m mem_put_def of_le_def upt_rec)
  have e: "entry_at 0x600000 0 = 0x600000" "entry_at 0x600000 1 = 0x600008" by simp_all
  have one: "poll_revents (entry_at 0x600000 0) t = (1 :: u16)"
    using ppoll_counts_ready [OF _ d, THEN conjunct1, THEN bspec, of 0] unfolding e f m by simp
  have two: "poll_revents (entry_at 0x600000 1) t = (4 :: u16)"
    using ppoll_counts_ready [OF _ d, THEN conjunct1, THEN bspec, of 1] unfolding e f m by simp
  have "{i \<in> {0..<nat 2}. (poll_revents (entry_at 0x600000 i) t :: u16) \<noteq> 0} = {0, 1}"
  proof (rule set_eqI)
    fix i :: nat
    show "i \<in> {i \<in> {0..<nat 2}. (poll_revents (entry_at 0x600000 i) t :: u16) \<noteq> 0} \<longleftrightarrow> i \<in> {0, 1}"
      using one two by (cases "i = 0"; cases "i = 1") simp_all
  qed
  then have "unat r = 2" using ppoll_counts_ready [OF _ d] by simp
  with one two show ?thesis unfolding d e by simp
qed

text \<open>
  (equivalence)  \<open>poll\<close> stores the same returned events as \<open>ppoll\<close> in the same state, but its
  result is always 1: unlike \<open>ppoll\<close>'s it does not depend on how many entries are ready.
\<close>

theorem poll_ignores_readiness:
  "do_poll b fds nfds s = (1, snd (do_ppoll b fds nfds s))"
  using poll_ignores [of b fds nfds s] by (simp add: do_poll_def)

end
