(* ===== verification/Syscall.thy ===== *)
theory Syscall
  imports Sys_Misc
begin

text \<open>
  The dispatcher of compat/ruby\_on\_bare\_metal\_syscall.c: the switch over the system call
  number as a table from numbers to handlers, the optional trace line, and the kernel state as
  seen through system calls: a step relation between the states before and after a call, with
  the program free to change its memory in between.
\<close>

section \<open>Model\<close>

definition lift :: "'r \<times> 's \<Rightarrow> ('r, 's) outcome" where
  "lift x = Ret (fst x) (snd x)"

text \<open>A path argument: NULL, or the C string at the address; reading a string that never ends is undefined.\<close>

definition with_path ::
  "ptr \<Rightarrow> (bytes option \<Rightarrow> 'a hw_scheme \<Rightarrow> ('r, 'a hw_scheme) outcome) \<Rightarrow> 'a hw_scheme \<Rightarrow> ('r, 'a hw_scheme) outcome" where
  "with_path a k s =
     (if a = 0 then k None s
      else case cstring_at (mem s) a of None \<Rightarrow> Stop Undefined s | Some path \<Rightarrow> k (Some path) s)"

text \<open>
  \<open>stat\<close>: \<open>sys_stat\<close> clears the structure before it looks at the path, so the path is the C string
  in the cleared memory (another one than before, when the structure lies over it); clearing
  a second time in \<open>sys_stat\<close> changes nothing.
\<close>

definition stat_call :: "'a sys_scheme build \<Rightarrow> ptr \<Rightarrow> ptr \<Rightarrow> 'a sys_scheme \<Rightarrow> (u64, 'a sys_scheme) outcome" where
  "stat_call b a st s = with_path a (\<lambda>path s. lift (sys_stat b path st s)) (memset st 0 sizeof_stat s)"

text \<open>\<open>exit\<close> and \<open>exit_group\<close>: a message, then \<open>for (;;) hlt\<close>.\<close>

definition halt_with :: "'s console \<Rightarrow> bytes \<Rightarrow> 's \<Rightarrow> ('r, 's) outcome" where
  "halt_with con msg s = andThen (c_puts con msg s) (\<lambda>_ s1. Stop Halted s1)"

definition syscall_table ::
  "'a sys_scheme build \<Rightarrow> u64 \<Rightarrow> u64 \<Rightarrow> u64 \<Rightarrow> u64 \<Rightarrow> u64 \<Rightarrow> u64
     \<Rightarrow> (u64 \<times> ('a sys_scheme \<Rightarrow> (u64, 'a sys_scheme) outcome)) list" where
  "syscall_table b a1 a2 a3 a4 a5 a6 =
     [
      (0, sys_read b (c_int a1) a2 a3),   \<comment> \<open>\<open>read\<close>\<close>
      (1, sys_write b (c_int a1) a2 a3),   \<comment> \<open>\<open>write\<close>\<close>
      (2, with_path a1 (\<lambda>path s. lift (sys_open b path s))),   \<comment> \<open>\<open>open\<close>\<close>
      (3, \<lambda>s. lift (sys_close (c_int a1) s)),   \<comment> \<open>\<open>close\<close>\<close>
      (4, stat_call b a1 a2),   \<comment> \<open>\<open>stat\<close>\<close>
      (5, \<lambda>s. lift (sys_fstat (c_int a1) a2 s)),   \<comment> \<open>\<open>fstat\<close>\<close>
      (6, stat_call b a1 a2),   \<comment> \<open>\<open>lstat\<close>\<close>
      (7, \<lambda>s. lift (do_poll b a1 (c_int a2) s)),   \<comment> \<open>\<open>poll\<close>\<close>
      (8, Ret 0),   \<comment> \<open>\<open>lseek\<close>\<close>
      (9, \<lambda>s. lift (sys_mmap a1 a2 (ucast a3) (ucast a4) (ucast a5) a6 s)),   \<comment> \<open>\<open>mmap\<close>\<close>
      (10, \<lambda>s. lift (sys_mprotect a1 a2 (ucast a3) s)),   \<comment> \<open>\<open>mprotect\<close>\<close>
      (11, \<lambda>s. lift (sys_munmap a1 a2 s)),   \<comment> \<open>\<open>munmap\<close>\<close>
      (12, \<lambda>s. lift (sys_brk a1 s)),   \<comment> \<open>\<open>brk\<close>\<close>
      (13, Ret 0),   \<comment> \<open>\<open>rt_sigaction\<close>\<close>
      (14, Ret 0),   \<comment> \<open>\<open>rt_sigprocmask\<close>\<close>
      (131, Ret 0),   \<comment> \<open>\<open>sigaltstack\<close>\<close>
      (16, \<lambda>s. lift (sys_ioctl (c_int a1) a2 a3 s)),   \<comment> \<open>\<open>ioctl\<close>\<close>
      (17, Ret 0),   \<comment> \<open>\<open>pread64\<close>\<close>
      (18, sys_write b (c_int a1) a2 a3),   \<comment> \<open>\<open>pwrite64\<close>\<close>
      (20, sys_writev b (c_int a1) a2 (c_int a3)),   \<comment> \<open>\<open>writev\<close>\<close>
      (21, with_path a1 (\<lambda>path. Ret (if ruby_on_bare_metal_file_exists (b_files b) path then 0 else - ENOENT))),   \<comment> \<open>\<open>access\<close>\<close>
      (22, \<lambda>s. lift (sys_pipe a1 s)),   \<comment> \<open>\<open>pipe\<close>\<close>
      (293, \<lambda>s. lift (sys_pipe a1 s)),   \<comment> \<open>\<open>pipe2\<close>\<close>
      (24, Ret 0),   \<comment> \<open>\<open>sched_yield\<close>\<close>
      (25, \<lambda>s. lift (sys_mremap a1 a2 a3 (ucast a4) s)),   \<comment> \<open>\<open>mremap\<close>\<close>
      (28, \<lambda>s. lift (sys_madvise a1 a2 (ucast a3) s)),   \<comment> \<open>\<open>madvise\<close>\<close>
      (32, \<lambda>s. lift (sys_dup (c_int a1) s)),   \<comment> \<open>\<open>dup\<close>\<close>
      (33, \<lambda>s. lift (sys_dup2 (c_int a1) (c_int a2) s)),   \<comment> \<open>\<open>dup2\<close>\<close>
      (292, \<lambda>s. lift (sys_dup3 (c_int a1) (c_int a2) (c_int a3) s)),   \<comment> \<open>\<open>dup3\<close>\<close>
      (35, Ret 0),   \<comment> \<open>\<open>nanosleep\<close>\<close>
      (39, Ret sys_getpid),   \<comment> \<open>\<open>getpid\<close>\<close>
      (56, Ret (- ENOSYS)),   \<comment> \<open>\<open>clone\<close>\<close>
      (57, Ret (- ENOSYS)),   \<comment> \<open>\<open>fork\<close>\<close>
      (58, Ret (- ENOSYS)),   \<comment> \<open>\<open>vfork\<close>\<close>
      (59, Ret (- ENOSYS)),   \<comment> \<open>\<open>execve\<close>\<close>
      (60, halt_with (b_con b) (ascii ''exit called'' @ [10])),   \<comment> \<open>\<open>exit\<close>\<close>
      (61, Ret (- ECHILD)),   \<comment> \<open>\<open>wait4\<close>\<close>
      (62, Ret 0),   \<comment> \<open>\<open>kill\<close>\<close>
      (72, Ret (sys_fcntl (c_int a1) (c_int a2) a3)),   \<comment> \<open>\<open>fcntl\<close>\<close>
      (77, Ret 0),   \<comment> \<open>\<open>ftruncate\<close>\<close>
      (78, Ret 0),   \<comment> \<open>\<open>getdents\<close>\<close>
      (79, \<lambda>s. lift (do_getcwd a1 a2 s)),   \<comment> \<open>\<open>getcwd\<close>\<close>
      (80, Ret 0),   \<comment> \<open>\<open>chdir\<close>\<close>
      (82, Ret (- EROFS)),   \<comment> \<open>\<open>rename\<close>\<close>
      (83, Ret (- EROFS)),   \<comment> \<open>\<open>mkdir\<close>\<close>
      (84, Ret (- EROFS)),   \<comment> \<open>\<open>rmdir\<close>\<close>
      (87, Ret (- EROFS)),   \<comment> \<open>\<open>unlink\<close>\<close>
      (88, Ret (- EROFS)),   \<comment> \<open>\<open>symlink\<close>\<close>
      (89, Ret (- EINVAL)),   \<comment> \<open>\<open>readlink\<close>\<close>
      (90, Ret 0),   \<comment> \<open>\<open>chmod\<close>\<close>
      (91, Ret 0),   \<comment> \<open>\<open>fchmod\<close>\<close>
      (92, Ret 0),   \<comment> \<open>\<open>chown\<close>\<close>
      (93, Ret 0),   \<comment> \<open>\<open>fchown\<close>\<close>
      (95, Ret 18),   \<comment> \<open>\<open>umask\<close>\<close>
      (96, \<lambda>s. lift (sys_gettimeofday a1 a2 s)),   \<comment> \<open>\<open>gettimeofday\<close>\<close>
      (97, \<lambda>s. lift (do_getrlimit a2 s)),   \<comment> \<open>\<open>getrlimit\<close>\<close>
      (98, Ret (- ENOSYS)),   \<comment> \<open>\<open>getrusage\<close>\<close>
      (100, Ret (- ENOSYS)),   \<comment> \<open>\<open>times\<close>\<close>
      (102, Ret sys_getuid),   \<comment> \<open>\<open>getuid\<close>\<close>
      (104, Ret sys_getgid),   \<comment> \<open>\<open>getgid\<close>\<close>
      (107, Ret sys_geteuid),   \<comment> \<open>\<open>geteuid\<close>\<close>
      (108, Ret sys_getegid),   \<comment> \<open>\<open>getegid\<close>\<close>
      (111, Ret 1),   \<comment> \<open>\<open>getpgrp\<close>\<close>
      (110, Ret 0),   \<comment> \<open>\<open>getppid\<close>\<close>
      (112, Ret 1),   \<comment> \<open>\<open>setsid\<close>\<close>
      (109, Ret 0),   \<comment> \<open>\<open>setpgid\<close>\<close>
      (157, Ret 0),   \<comment> \<open>\<open>prctl\<close>\<close>
      (158, \<lambda>s. lift (sys_arch_prctl (c_int a1) a2 s)),   \<comment> \<open>\<open>arch_prctl\<close>\<close>
      (202, Ret 0),   \<comment> \<open>\<open>futex\<close>\<close>
      (186, Ret 1),   \<comment> \<open>\<open>gettid\<close>\<close>
      (218, Ret sys_getpid),   \<comment> \<open>\<open>set_tid_address\<close>\<close>
      (273, Ret 0),   \<comment> \<open>\<open>set_robust_list\<close>\<close>
      (228, \<lambda>s. lift (sys_clock_gettime (c_int a1) a2 s)),   \<comment> \<open>\<open>clock_gettime\<close>\<close>
      (229, \<lambda>s. lift (sys_clock_getres (c_int a1) a2 s)),   \<comment> \<open>\<open>clock_getres\<close>\<close>
      (231, halt_with (b_con b) (ascii ''exit_group called'' @ [10])),   \<comment> \<open>\<open>exit_group\<close>\<close>
      (291, Ret (- ENOSYS)),   \<comment> \<open>\<open>epoll_create1\<close>\<close>
      (270, \<lambda>s. lift (do_pselect6 b (c_int a1) a2 a3 s)),   \<comment> \<open>\<open>pselect6\<close>\<close>
      (271, \<lambda>s. lift (do_ppoll b a1 (c_int a2) s)),   \<comment> \<open>\<open>ppoll\<close>\<close>
      (290, Ret (- ENOSYS)),   \<comment> \<open>\<open>eventfd2\<close>\<close>
      (257, with_path a2 (\<lambda>path s. lift (sys_open b path s))),   \<comment> \<open>\<open>openat\<close>\<close>
      (262, stat_call b a2 a3),   \<comment> \<open>\<open>newfstatat\<close>\<close>
      (318, \<lambda>s. lift (sys_getrandom a1 a2 (ucast a3) s)),   \<comment> \<open>\<open>getrandom\<close>\<close>
      (332, Ret (- ENOSYS))]   \<comment> \<open>\<open>statx\<close>\<close>"

definition trace_line :: "'a sys_scheme build \<Rightarrow> u64 \<Rightarrow> 'a sys_scheme \<Rightarrow> (unit, 'a sys_scheme) outcome" where
  "trace_line b n s =
     (if syscall_trace s \<noteq> 0 then
        andThen (c_puts (b_con b) (ascii ''sys:'') s) (\<lambda>_ s1. print_long (b_con b) n s1)
      else Ret () s)"

definition ruby_on_bare_metal_syscall ::
  "'a sys_scheme build \<Rightarrow> u64 \<Rightarrow> u64 \<Rightarrow> u64 \<Rightarrow> u64 \<Rightarrow> u64 \<Rightarrow> u64 \<Rightarrow> u64 \<Rightarrow> 'a sys_scheme
     \<Rightarrow> (u64, 'a sys_scheme) outcome" where
  "ruby_on_bare_metal_syscall b n a1 a2 a3 a4 a5 a6 s =
     andThen (trace_line b n s) (\<lambda>_ s1.
       case map_of (syscall_table b a1 a2 a3 a4 a5 a6) n of
         Some handler \<Rightarrow> handler s1
       | None \<Rightarrow> ruby_on_bare_metal_log_unhandled (b_con b) n s1)"

lemma lift_simps [simp]: "post Q (lift x) = Q (fst x) (snd x)" "lift (r, s) = Ret r s"
  by (simp_all add: lift_def)

section \<open>The kernel invariant\<close>

definition sys_inv :: "file_tables \<Rightarrow> 'a sys_scheme \<Rightarrow> bool" where
  "sys_inv ft s \<longleftrightarrow> fd_inv ft s \<and> mmap_inv s"

text \<open>States that agree on the descriptor table and the mmap mark.\<close>

definition same_tables :: "'a sys_scheme \<Rightarrow> 'a sys_scheme \<Rightarrow> bool" where
  "same_tables s t \<longleftrightarrow> fd_table t = fd_table s \<and> mmap_next t = mmap_next s"

named_theorems same_intros

lemma same_tables_inv: "same_tables s t \<Longrightarrow> sys_inv ft s \<Longrightarrow> sys_inv ft t"
  by (simp add: same_tables_def sys_inv_def fd_inv_def mmap_inv_def)

lemma same_tables_refl [same_intros, simp]: "same_tables s s"
  by (simp add: same_tables_def)

lemma same_tables_trans: "same_tables s t \<Longrightarrow> same_tables t u \<Longrightarrow> same_tables s u"
  by (simp add: same_tables_def)

lemma same_tables_write [same_intros]:
  "same_tables s t \<Longrightarrow> same_tables s (store n p w t)"
  "same_tables s t \<Longrightarrow> same_tables s (memset p b k t)"
  "same_tables s t \<Longrightarrow> same_tables s (memcpy p q k t)"
  "same_tables s t \<Longrightarrow> same_tables s (t\<lparr>mem := m\<rparr>)"
  "same_tables s t \<Longrightarrow> same_tables s (wrmsr r a t)"
  by (simp_all add: same_tables_def store_def memset_def memcpy_def wrmsr_def emit_def)

lemma quiet_same [same_intros]: "quiet s t \<Longrightarrow> same_tables s t"
  by (simp only: same_tables_def quiet_sys simp_thms)

lemma clock_same [same_intros]: "same_tables s (snd (ruby_on_bare_metal_clock_millis s))"
  by (simp add: same_tables_def clock_eq)

lemma random_loop_same: "same_tables s t \<Longrightarrow> same_tables s (random_loop p is seed t)"
  by (induction "is" arbitrary: seed t) (simp_all add: Let_def same_tables_write(1) del: One_nat_def)

text \<open>The handlers that only read or write memory, the clock or a register.\<close>

lemma memory_handlers_same [same_intros]:
  "same_tables s (snd (sys_stat b path p s))" "same_tables s (snd (sys_fstat fd p s))"
  "same_tables s (snd (sys_clock_gettime clk p s))" "same_tables s (snd (sys_clock_getres clk p s))"
  "same_tables s (snd (sys_gettimeofday p tz s))" "same_tables s (snd (sys_getrandom p n fl s))"
  "same_tables s (snd (sys_ioctl fd req arg s))" "same_tables s (snd (sys_arch_prctl code a s))"
  "same_tables s (snd (do_getcwd p n s))" "same_tables s (snd (do_getrlimit p s))"
proof -
  obtain ms t where c: "ruby_on_bare_metal_clock_millis s = (ms, t)" by fastforce
  then have clock: "same_tables s t" using clock_same [of s] by simp
  show "same_tables s (snd (sys_stat b path p s))" "same_tables s (snd (sys_fstat fd p s))"
    "same_tables s (snd (sys_clock_getres clk p s))" "same_tables s (snd (sys_ioctl fd req arg s))"
    "same_tables s (snd (sys_arch_prctl code a s))" "same_tables s (snd (do_getcwd p n s))"
    "same_tables s (snd (do_getrlimit p s))"
    by (simp_all add: sys_stat_def sys_fstat_def sys_clock_getres_def sys_ioctl_def sys_arch_prctl_def
          do_getcwd_def do_getrlimit_def Let_def same_tables_write)
  show "same_tables s (snd (sys_clock_gettime clk p s))" "same_tables s (snd (sys_gettimeofday p tz s))"
    "same_tables s (snd (sys_getrandom p n fl s))"
    by (simp_all add: sys_clock_gettime_def sys_gettimeofday_def sys_getrandom_def c
          same_tables_write random_loop_same clock)
qed

text \<open>The descriptor calls keep the mmap mark.\<close>

lemma descriptors_mmap_next:
  "mmap_next (snd (sys_open b path s)) = mmap_next s" "mmap_next (snd (sys_close fd s)) = mmap_next s"
  "mmap_next (snd (sys_dup fd s)) = mmap_next s" "mmap_next (snd (sys_dup2 fd fd' s)) = mmap_next s"
  "mmap_next (snd (sys_pipe p s)) = mmap_next s"
proof -
  show "mmap_next (snd (sys_open b path s)) = mmap_next s"
    by (simp add: sys_open_def case_prod_beta split: option.split)
  show "mmap_next (snd (sys_close fd s)) = mmap_next s" "mmap_next (snd (sys_dup2 fd fd' s)) = mmap_next s"
    by (simp_all add: sys_close_def sys_dup2_def)
  show "mmap_next (snd (sys_dup fd s)) = mmap_next s"
    by (simp add: sys_dup_def split: option.split)
  show "mmap_next (snd (sys_pipe p s)) = mmap_next s"
    by (simp only: sys_pipe_def case_prod_beta Let_def) (simp add: store_def del: upt_rec_numeral)
qed

lemma mmap_fd_table [simp]: "fd_table (snd (sys_mmap a n pr fl fd off s)) = fd_table s"
  by (simp add: sys_mmap_def Let_def)

lemma mmap_keeps_inv: "sys_inv ft s \<Longrightarrow> unat n \<le> 2 ^ 63 \<Longrightarrow> sys_inv ft (snd (sys_mmap a n pr fl fd off s))"
proof -
  assume "sys_inv ft s" and n: "unat n \<le> 2 ^ 63"
  then have fd: "fd_inv ft s" and m: "mmap_inv s" by (simp_all add: sys_inv_def)
  have "mmap_inv (snd (sys_mmap a n pr fl fd off s))"
    using mmap_serves_block [OF m n, of a pr fl fd off] m by auto
  then show ?thesis using fd by (simp add: sys_inv_def fd_inv_def)
qed

lemma memcpy_inv: "sys_inv ft (memcpy p q k t) \<longleftrightarrow> sys_inv ft t"
  by (simp add: sys_inv_def fd_inv_def mmap_inv_def memcpy_def)

lemma mremap_keeps_inv: "sys_inv ft s \<Longrightarrow> unat n \<le> 2 ^ 63 \<Longrightarrow> sys_inv ft (snd (sys_mremap q k n fl s))"
  using mmap_keeps_inv [of ft s n 0 3 0 "- 1" 0]
  by (simp add: sys_mremap_def case_prod_beta memcpy_inv)

lemma post_with_path:
  assumes "post Q (k None s)" and "\<And>path. cstring path \<Longrightarrow> post Q (k (Some path) s)"
  shows "post Q (with_path a k s)"
  using assms cstring_at_no_nul [of "mem s" a]
  by (auto simp: with_path_def cstring_def split: option.split)

lemma post_halt_with [simp]: "post Q (halt_with con msg s)"
  unfolding halt_with_def by (rule post_andThen [where R = "\<lambda>_ _. True"]) (cases "c_puts con msg s", simp_all)

text \<open>The argument of the two calls that size a block.\<close>

definition block_sizes_ok :: "u64 \<Rightarrow> u64 \<Rightarrow> u64 \<Rightarrow> bool" where
  "block_sizes_ok n a2 a3 \<longleftrightarrow> (n = 9 \<longrightarrow> unat a2 \<le> 2 ^ 63) \<and> (n = 25 \<longrightarrow> unat a3 \<le> 2 ^ 63)"

context sys_layer
begin

lemma data_ready_same: "same_tables s (snd (c_data_ready (b_con b) s))"
  by (rule quiet_same [OF ready_quiet])

lemma poll_entry_same: "same_tables s (poll_entry b p s)"
proof -
  obtain r t where c: "c_data_ready (b_con b) (store16 (p + 6) 0 s) = (r, t)" by fastforce
  then have t: "same_tables s t"
    using same_tables_trans [OF same_tables_write(1) [OF same_tables_refl] data_ready_same] by (metis snd_conv)
  show ?thesis
    by (simp add: poll_entry_def Let_def c same_tables_write(1) t)
qed

lemma poll_loop_same: "same_tables s t \<Longrightarrow> same_tables s (poll_loop b fds is t)"
proof (induction "is" arbitrary: t)
  case (Cons i "is")
  show ?case unfolding poll_loop.simps
    by (rule Cons.IH [OF same_tables_trans [OF Cons.prems poll_entry_same]])
qed simp

lemma readiness_same:
  "same_tables s (snd (do_poll b fds n s))" "same_tables s (snd (do_ppoll b fds n s))"
  "same_tables s (snd (do_pselect6 b n rd wr s))"
proof -
  show poll: "same_tables s (snd (do_poll b fds n s))" by (simp add: do_poll_def poll_loop_same)
  then show "same_tables s (snd (do_ppoll b fds n s))" by (simp add: poll_ignores)
  obtain r t where c: "c_data_ready (b_con b) s = (r, t)" by fastforce
  then have t: "same_tables s t" using data_ready_same [of s] by simp
  show "same_tables s (snd (do_pselect6 b n rd wr s))"
    by (simp add: do_pselect6_def Let_def c same_tables_write(1) t)
qed

lemma print_long_quiet: "post (\<lambda>_. quiet s) (print_long (b_con b) n s)"
proof -
  have cs: "post (\<lambda>_. quiet s) (forO (c_putc (b_con b)) cs t)" if "quiet s t" for cs t
  proof (rule post_forO)
    show "post (\<lambda>_. quiet s) (c_putc (b_con b) c u)" if "quiet s u" for c u
      by (rule post_mono [OF putc_quiet]) (rule quiet_trans [OF that])
  qed (rule that)
  have nl: "post (\<lambda>_. quiet s) (andThen (forO (c_putc (b_con b)) cs t) (\<lambda>_ s2. c_putc (b_con b) 10 s2))"
    if "quiet s t" for cs t
    by (rule post_andThen [OF cs [OF that]]) (rule post_mono [OF putc_quiet], rule quiet_trans)
  show ?thesis
    unfolding print_long_def Let_def
    by (rule post_andThen [where R = "\<lambda>_. quiet s"]) (simp_all add: putc_quiet nl)
qed

lemma trace_line_quiet: "post (\<lambda>_. quiet s) (trace_line b n s)"
proof -
  have "post (\<lambda>_. quiet s) (print_long (b_con b) n t)" if "quiet s t" for t
    by (rule post_mono [OF print_long_quiet]) (rule quiet_trans [OF that])
  then have "post (\<lambda>_. quiet s) (andThen (c_puts (b_con b) (ascii ''sys:'') s) (\<lambda>_ s1. print_long (b_con b) n s1))"
    by (rule post_andThen [OF puts_quiet])
  then show ?thesis unfolding trace_line_def by (rule post_if) simp
qed

lemma log_unhandled_quiet: "post (\<lambda>_. quiet s) (ruby_on_bare_metal_log_unhandled (b_con b) n s)"
proof -
  have "post (\<lambda>_. quiet s) (andThen (print_long (b_con b) n t) (\<lambda>_ s2. Ret (- ENOSYS) s2))" if "quiet s t" for t
    by (rule post_andThen [OF print_long_quiet]) (simp add: quiet_trans [OF that])
  then show ?thesis
    unfolding ruby_on_bare_metal_log_unhandled_def by (rule post_andThen [OF puts_quiet])
qed

lemma sys_read_inv: "sys_inv ft s \<Longrightarrow> post (\<lambda>_. sys_inv ft) (sys_read b fd buf n s)"
proof -
  assume "sys_inv ft s"
  then have fd: "fd_inv ft s" and m: "mmap_inv s" by (simp_all add: sys_inv_def)
  have con: "post (\<lambda>_ t. mmap_next t = mmap_next s) (c_read (b_con b) buf n s)"
    by (rule post_mono [OF read_fills]) (elim conjE, rule fills_sys(2))
  have "post (\<lambda>_ t. mmap_next t = mmap_next s) (sys_read b fd buf n s)"
    using con by (simp add: sys_read_def Let_def memcpy_def)
  from post_conj [OF this sys_read_fd_inv [OF fd]] show ?thesis
    by (rule post_mono) (use m in \<open>auto simp: sys_inv_def mmap_inv_def\<close>)
qed

lemma quiet_inv: "post (\<lambda>_. quiet s) o' \<Longrightarrow> sys_inv ft s \<Longrightarrow> post (\<lambda>_. sys_inv ft) o'"
  by (erule post_mono) (blast intro: same_tables_inv quiet_same)

lemmas output_inv = quiet_inv [OF sys_write_quiet] quiet_inv [OF sys_writev_quiet] quiet_inv [OF log_unhandled_quiet]

lemmas memory_inv = memory_handlers_same [THEN same_tables_inv] readiness_same [THEN same_tables_inv]

lemma path_rows_inv:
  assumes "tables_ok (b_files b)" and "sys_inv (b_files b) s"
  shows "post (\<lambda>_. sys_inv (b_files b)) (with_path a (\<lambda>path s. lift (sys_open b path s)) s)"
    and "post (\<lambda>_. sys_inv (b_files b)) (stat_call b a p s)"
    and "post (\<lambda>_. sys_inv (b_files b)) (with_path a (\<lambda>path. Ret (r path)) s)"
proof -
  have fd: "fd_inv (b_files b) s" and m: "mmap_inv s" using assms(2) by (simp_all add: sys_inv_def)
  have "sys_inv (b_files b) (snd (sys_open b path s))" if "\<forall>q. path = Some q \<longrightarrow> cstring q" for path
    using sys_open_fd_inv [OF fd assms(1) refl that] m
    by (simp add: sys_inv_def mmap_inv_def descriptors_mmap_next)
  then show "post (\<lambda>_. sys_inv (b_files b)) (with_path a (\<lambda>path s. lift (sys_open b path s)) s)"
    by (intro post_with_path) simp_all
  have "sys_inv (b_files b) (memset p 0 sizeof_stat s)"
    using same_tables_inv [OF same_tables_write(2) [OF same_tables_refl] assms(2)] .
  from memory_inv(1) [OF this] show "post (\<lambda>_. sys_inv (b_files b)) (stat_call b a p s)"
    unfolding stat_call_def by (intro post_with_path) simp_all
  show "post (\<lambda>_. sys_inv (b_files b)) (with_path a (\<lambda>path. Ret (r path)) s)"
    using assms(2) by (intro post_with_path) simp_all
qed

lemma descriptor_rows_inv:
  assumes "sys_inv ft s"
  shows "sys_inv ft (snd (sys_close fd s))" "sys_inv ft (snd (sys_dup fd s))"
    "sys_inv ft (snd (sys_dup2 fd fd' s))" "sys_inv ft (snd (sys_pipe p s))"
  using assms by (simp_all add: sys_inv_def mmap_inv_def descriptors_mmap_next
      sys_close_fd_inv sys_dup_fd_inv sys_dup2_fd_inv sys_pipe_fd_inv)

lemma syscall_rows_inv:
  assumes "tables_ok (b_files b)" and "sys_inv (b_files b) s"
  shows "\<forall>(n, h) \<in> set (syscall_table b a1 a2 a3 a4 a5 a6).
     block_sizes_ok n a2 a3 \<longrightarrow> post (\<lambda>_. sys_inv (b_files b)) (h s)"
  unfolding list_all_iff [symmetric] syscall_table_def list.pred_inject prod.case
  by (intro conjI impI TrueI)
    (simp_all add: assms path_rows_inv descriptor_rows_inv memory_inv output_inv sys_read_inv sys_dup3_def
      mmap_keeps_inv mremap_keeps_inv sys_munmap_def sys_mprotect_def sys_madvise_def sys_brk_def block_sizes_ok_def)

theorem syscall_inv:
  assumes "tables_ok (b_files b)" and "sys_inv (b_files b) s" and "block_sizes_ok n a2 a3"
  shows "post (\<lambda>_. sys_inv (b_files b)) (ruby_on_bare_metal_syscall b n a1 a2 a3 a4 a5 a6 s)"
  unfolding ruby_on_bare_metal_syscall_def
proof (rule post_andThen [OF trace_line_quiet])
  fix x :: unit and t
  assume "quiet s t"
  then have t: "sys_inv (b_files b) t" using assms(2) by (blast intro: same_tables_inv quiet_same)
  show "post (\<lambda>_. sys_inv (b_files b))
      (case map_of (syscall_table b a1 a2 a3 a4 a5 a6) n of Some handler \<Rightarrow> handler t
       | None \<Rightarrow> ruby_on_bare_metal_log_unhandled (b_con b) n t)"
    using syscall_rows_inv [OF assms(1) t, of a1 a2 a3 a4 a5 a6] assms(3) output_inv(3) [OF t]
    by (auto split: option.split dest!: map_of_SomeD)
qed

end

section \<open>Runs of the kernel\<close>

text \<open>
  Between two states: a system call that returns, with blocks of at most 2^63 bytes requested, or
  the program changing memory.
\<close>

inductive kstep :: "'a sys_scheme build \<Rightarrow> 'a sys_scheme \<Rightarrow> 'a sys_scheme \<Rightarrow> bool" for b where
  call: "block_sizes_ok n a2 a3 \<Longrightarrow> ruby_on_bare_metal_syscall b n a1 a2 a3 a4 a5 a6 s = Ret r t \<Longrightarrow> kstep b s t"
| run: "kstep b s (s\<lparr>mem := m\<rparr>)"

inductive_cases kstepE: "kstep b s t"

definition booted :: "'a sys_scheme \<Rightarrow> bool" where
  "booted s \<longleftrightarrow> fd_table s = initial_fds \<and> mmap_next s = MMAP_BASE"

lemma booted_inv: "booted s \<Longrightarrow> sys_inv ft s"
  by (simp add: booted_def sys_inv_def fd_inv_def fds_ok_initial mmap_inv_def)

context sys_layer
begin

lemma kstep_inv: "kstep b s t \<Longrightarrow> tables_ok (b_files b) \<Longrightarrow> sys_inv (b_files b) s \<Longrightarrow> sys_inv (b_files b) t"
proof (erule kstepE)
  fix n a2 a3 a1 a4 a5 a6 r
  assume "tables_ok (b_files b)" "sys_inv (b_files b) s" "block_sizes_ok n a2 a3"
    and "ruby_on_bare_metal_syscall b n a1 a2 a3 a4 a5 a6 s = Ret r t"
  then show "sys_inv (b_files b) t" using syscall_inv [of s n a2 a3 a1 a4 a5 a6] by simp
next
  fix m
  assume "sys_inv (b_files b) s" "t = s\<lparr>mem := m\<rparr>"
  then show "sys_inv (b_files b) t" by (blast intro: same_tables_inv same_tables_write(4) same_tables_refl)
qed

lemma reachable_inv:
  "(kstep b)\<^sup>*\<^sup>* s t \<Longrightarrow> tables_ok (b_files b) \<Longrightarrow> sys_inv (b_files b) s \<Longrightarrow> sys_inv (b_files b) t"
  by (induction rule: rtranclp_induct) (auto intro: kstep_inv)

end

lemma sys_inv_entries:
  assumes "sys_inv ft t" and "i < MAX_FD" and "fe_data (fd_table t ! i) \<noteq> 0"
  shows "fe_used (fd_table t ! i) \<and> fe_offset (fd_table t ! i) \<le> fe_size (fd_table t ! i)
     \<and> (\<exists>p. files_map ft p = Some (fe_data (fd_table t ! i), fe_size (fd_table t ! i)))"
  using fds_ok_nth [of ft "fd_table t" i] assms by (auto simp: sys_inv_def fd_inv_def fd_ok_def ran_def)

section \<open>The switch\<close>

text \<open>The numbers the switch handles.\<close>

definition handled :: "u64 list" where
  "handled = map fst (syscall_table (serial_build \<lparr>generated_files = [], mui_files = []\<rparr> :: unit sys_scheme build) 0 0 0 0 0 0)"

lemma handled_keys: "map fst (syscall_table b a1 a2 a3 a4 a5 a6) = handled"
  unfolding handled_def syscall_table_def list.map fst_conv ..

lemma not_handled: "n \<notin> set handled \<Longrightarrow> map_of (syscall_table b a1 a2 a3 a4 a5 a6) n = None"
  by (simp add: map_of_eq_None_iff handled_keys [of b a1 a2 a3 a4 a5 a6, symmetric])

lemma untraced: "syscall_trace s = 0 \<Longrightarrow> ruby_on_bare_metal_syscall b n a1 a2 a3 a4 a5 a6 s =
    (case map_of (syscall_table b a1 a2 a3 a4 a5 a6) n of Some handler \<Rightarrow> handler s
     | None \<Rightarrow> ruby_on_bare_metal_log_unhandled (b_con b) n s)"
  by (simp add: ruby_on_bare_metal_syscall_def trace_line_def)

lemma unhandled_call:
  assumes "syscall_trace s = 0" and "n \<notin> set handled" and "n \<noteq> 0x8000000000000000"
  shows "ruby_on_bare_metal_syscall (serial_build ft) n a1 a2 a3 a4 a5 a6 s =
       Ret (- ENOSYS) (s\<lparr>evs := evs s @ com1 (ascii ''syscall: unhandled #'' @ signed_decimal (sint n) @ [10])\<rparr>)"
    and "ansi_state s = ST_NORMAL \<and> has_con_out s \<longrightarrow>
       ruby_on_bare_metal_syscall (uefi_build ft) n a1 a2 a3 a4 a5 a6 s =
       Ret (- ENOSYS) (s\<lparr>evs := evs s @ map text_event (ascii ''syscall: unhandled #'' @ signed_decimal (sint n) @ [10])\<rparr>)"
  using log_unhandled_serial [OF assms(3), of s] log_unhandled_uefi [OF assms(3), of s]
  by (simp_all add: untraced [OF assms(1)] not_handled [OF assms(2)] del: ascii_simps)

lemma handled_distinct: "distinct handled"
  unfolding handled_def syscall_table_def list.map fst_conv by (simp only: distinct.simps set_simps) simp

lemma table_row:
  assumes "(n, h) \<in> set (syscall_table b a1 a2 a3 a4 a5 a6)" and "syscall_trace s = 0"
  shows "ruby_on_bare_metal_syscall b n a1 a2 a3 a4 a5 a6 s = h s"
proof -
  have "map_of (syscall_table b a1 a2 a3 a4 a5 a6) n = Some h"
    using assms(1) handled_distinct by (intro map_of_is_SomeI) (simp_all add: handled_keys)
  then show ?thesis by (simp add: untraced assms(2))
qed

section \<open>Properties\<close>

text \<open>
  C7 (invariant).  In every state that any sequence of system calls and program activity reaches
  from boot, on either console, each descriptor with data is in use and refers to an embedded file
  with that file's size, its offset is within the file, and the mmap mark is between 256 MB and
  496 MB.  (A single block request is at most 2^63 bytes.)
\<close>

theorem reachable_states_sound:
  assumes "tables_ok ft" and "booted s"
    and "(kstep (serial_build ft))\<^sup>*\<^sup>* s t \<or> (kstep (uefi_build ft))\<^sup>*\<^sup>* s t"
  shows "length (fd_table t) = MAX_FD
     \<and> (\<forall>i < MAX_FD. fe_data (fd_table t ! i) \<noteq> 0 \<longrightarrow>
          fe_used (fd_table t ! i) \<and> fe_offset (fd_table t ! i) \<le> fe_size (fd_table t ! i)
          \<and> (\<exists>p. files_map ft p = Some (fe_data (fd_table t ! i), fe_size (fd_table t ! i))))
     \<and> MMAP_BASE \<le> mmap_next t \<and> mmap_next t \<le> MMAP_LIMIT"
proof -
  have inv: "sys_inv ft t"
    using assms(3) serial_sys.reachable_inv [of ft s t] uefi_sys.reachable_inv [of ft s t] assms(1) booted_inv [OF assms(2), of ft]
    by auto
  then show ?thesis
    using sys_inv_entries [OF inv] by (simp add: sys_inv_def fd_inv_def fds_ok_def mmap_inv_def)
qed

lemma close_call:
  "syscall_trace s = 0 \<Longrightarrow> ruby_on_bare_metal_syscall b 3 a1 a2 a3 a4 a5 a6 s = lift (sys_close (c_int a1) s)"
  by (rule table_row) (simp add: syscall_table_def)

theorem reachable_states_sound_witness:
  "mmap_next (snd (sys_close 5 demo_sys)) \<le> MMAP_LIMIT \<and> length (fd_table (snd (sys_close 5 demo_sys))) = 64"
proof -
  have "c_int 5 = 5" "syscall_trace demo_sys = 0" by (simp_all add: c_int_def demo_sys_def)
  then have "ruby_on_bare_metal_syscall (serial_build two_tables) 3 5 0 0 0 0 0 demo_sys
      = Ret (fst (sys_close 5 demo_sys)) (snd (sys_close 5 demo_sys))"
    by (simp add: close_call lift_def)
  then have "kstep (serial_build two_tables) demo_sys (snd (sys_close 5 demo_sys))"
    by (rule kstep.call [rotated]) (simp add: block_sizes_ok_def)
  then have "(kstep (serial_build two_tables))\<^sup>*\<^sup>* demo_sys (snd (sys_close 5 demo_sys))" ..
  moreover have "booted demo_sys" by (simp add: booted_def demo_simps demo_mmap)
  ultimately show ?thesis
    using reachable_states_sound [OF two_tables_ok(1), of demo_sys "snd (sys_close 5 demo_sys)"] by blast
qed

text \<open>
  C34 (functional).  On the serial build with tracing off, writing to standard output or standard error through
  the system call interface sends exactly the bytes of the buffer over the serial line, LF as CR
  LF, and returns their number; every other descriptor gets EBADF and nothing is sent.
\<close>

theorem write_syscall:
  assumes "syscall_trace s = 0"
  shows "ruby_on_bare_metal_syscall (serial_build ft) 1 a1 buf count a4 a5 a6 s =
     (if c_int a1 = 1 \<or> c_int a1 = 2
      then Ret count (s\<lparr>evs := evs s @ map (Outb COM1) (crlf (mem_bytes (mem s) buf (unat count)))\<rparr>)
      else Ret (- EBADF) s)"
proof -
  have "ruby_on_bare_metal_syscall (serial_build ft) 1 a1 buf count a4 a5 a6 s
      = sys_write (serial_build ft) (c_int a1) buf count s"
    by (rule table_row [OF _ assms]) (simp add: syscall_table_def)
  then show ?thesis by (simp add: sys_write_def serial_write_eq com1_def)
qed

theorem write_syscall_witness:
  "ruby_on_bare_metal_syscall (serial_build two_tables) 1 1 0x500000 5 0 0 0 demo_sys =
     Ret 5 (demo_sys\<lparr>evs := map (Outb COM1) (ascii ''puts '')\<rparr>)"
proof -
  have "mem_bytes (mem demo_sys) 0x500000 5 = ascii ''puts ''"
    using mem_bytes_put_part [of 0 5 demo_script "\<lambda>_. 0" "0x500000"]
    by (simp add: demo_sys_def demo_script_def)
  moreover have "syscall_trace demo_sys = 0" "evs demo_sys = []" "c_int 1 = 1" by (simp_all add: demo_sys_def c_int_def)
  ultimately show ?thesis
    using write_syscall [of demo_sys two_tables 1 "0x500000" 5] by (simp add: crlf_def)
qed

text \<open>
  C26 (error).  The switch handles 83 different numbers.  With tracing off, any other number except
  -2^63, whose negation in the printing code overflows, is answered with ENOSYS and reported in
  decimal: on the serial console as the bytes of the line, and on a UEFI console that is present and
  not inside an escape sequence as one text output per character.  Nothing else changes.
\<close>

theorem unknown_syscall:
  assumes "syscall_trace s = 0" and "n \<notin> set handled" and "n \<noteq> 0x8000000000000000"
  shows "ruby_on_bare_metal_syscall (serial_build ft) n a1 a2 a3 a4 a5 a6 s =
       Ret (- ENOSYS) (s\<lparr>evs := evs s @ com1 (ascii ''syscall: unhandled #'' @ signed_decimal (sint n) @ [10])\<rparr>)
     \<and> (ansi_state s = ST_NORMAL \<and> has_con_out s \<longrightarrow>
         ruby_on_bare_metal_syscall (uefi_build ft) n a1 a2 a3 a4 a5 a6 s =
         Ret (- ENOSYS) (s\<lparr>evs := evs s @ map text_event (ascii ''syscall: unhandled #'' @ signed_decimal (sint n) @ [10])\<rparr>))
     \<and> distinct handled \<and> length handled = 83"
proof -
  have "length handled = 83" unfolding handled_def syscall_table_def by simp
  then show ?thesis
    using unhandled_call [OF assms, of ft] handled_distinct by blast
qed

theorem unknown_syscall_witness:
  "ruby_on_bare_metal_syscall (serial_build two_tables) 425 0 0 0 0 0 0 demo_sys =
     Ret (- ENOSYS) (demo_sys\<lparr>evs := com1 (ascii ''syscall: unhandled #'' @ [52, 50, 53, 10])\<rparr>)
   \<and> ruby_on_bare_metal_syscall (uefi_build two_tables) 425 0 0 0 0 0 0 demo_sys =
     Ret (- ENOSYS) (demo_sys\<lparr>evs := map text_event (ascii ''syscall: unhandled #'' @ [52, 50, 53, 10])\<rparr>)"
proof -
  have n: "(425 :: u64) \<notin> set handled" unfolding handled_def syscall_table_def by simp
  have d: "signed_decimal (sint (425 :: u64)) = [52, 50, 53]" by (simp add: signed_decimal_def decimal.simps)
  have s: "syscall_trace demo_sys = 0" "evs demo_sys = []" "ansi_state demo_sys = ST_NORMAL" "has_con_out demo_sys"
    by (simp_all add: demo_sys_def blank_sys_def uefi.defs hw.defs blank_uefi_def blank_hw_def has_con_out_def)
  show ?thesis
    using unknown_syscall [OF s(1) n, of two_tables, unfolded d] s by (simp del: ascii_simps)
qed

text \<open>
  (safety)  \<open>exit\<close> and \<open>exit_group\<close> print their message and halt the machine: they never
  return, whatever the arguments.
\<close>

theorem exit_halts:
  assumes "syscall_trace s = 0"
  shows "ruby_on_bare_metal_syscall (serial_build ft) 60 a1 a2 a3 a4 a5 a6 s =
       Stop Halted (s\<lparr>evs := evs s @ com1 (ascii ''exit called'' @ [10])\<rparr>)
     \<and> ruby_on_bare_metal_syscall (serial_build ft) 231 a1 a2 a3 a4 a5 a6 s =
       Stop Halted (s\<lparr>evs := evs s @ com1 (ascii ''exit_group called'' @ [10])\<rparr>)"
proof -
  have "ruby_on_bare_metal_syscall (serial_build ft) 60 a1 a2 a3 a4 a5 a6 s
      = halt_with (b_con (serial_build ft)) (ascii ''exit called'' @ [10]) s"
    by (rule table_row [OF _ assms]) (simp add: syscall_table_def del: ascii_simps)
  moreover have "ruby_on_bare_metal_syscall (serial_build ft) 231 a1 a2 a3 a4 a5 a6 s
      = halt_with (b_con (serial_build ft)) (ascii ''exit_group called'' @ [10]) s"
    by (rule table_row [OF _ assms]) (simp add: syscall_table_def del: ascii_simps)
  ultimately show ?thesis by (simp add: halt_with_def serial_puts_eq del: ascii_simps)
qed

theorem exit_halts_witness:
  "ruby_on_bare_metal_syscall (serial_build two_tables) 231 7 0 0 0 0 0 demo_sys =
     Stop Halted (demo_sys\<lparr>evs := com1 (ascii ''exit_group called'' @ [10])\<rparr>)"
proof -
  have "syscall_trace demo_sys = 0" "evs demo_sys = []" by (simp_all add: demo_sys_def)
  then show ?thesis using exit_halts [of demo_sys two_tables 7] by (simp del: ascii_simps)
qed

end
