(* ===== verification/Malloc.thy ===== *)
theory Malloc
  imports Syscall
begin

text \<open>
  compat/ruby\_on\_bare\_metal\_malloc.c: the memory functions of the C library, over a bump
  allocator with a 16-byte header in front of each block, and the C-level mmap wrappers, which go
  through the system call interface.  The address of the heap array is chosen by the linker, a
  parameter \<open>heap\<close> here.
\<close>

section \<open>Model\<close>

record libc = sys +
  heap_used :: u64
  errno :: int

abbreviation HEAP_SIZE :: u64 where "HEAP_SIZE \<equiv> 128 * 1024 * 1024"
abbreviation HDR_SIZE :: u64 where "HDR_SIZE \<equiv> 16"
abbreviation MAGIC :: u64 where "MAGIC \<equiv> 0xA110CA7E"

definition ALIGN :: "u64 \<Rightarrow> u64 \<Rightarrow> u64" where
  "ALIGN x a = (x + a - 1) AND NOT (a - 1)"

definition bump_alloc :: "ptr \<Rightarrow> u64 \<Rightarrow> u64 \<Rightarrow> 'a libc_scheme \<Rightarrow> ptr \<times> 'a libc_scheme" where
  "bump_alloc heap size0 alignment0 s =
     (let sz = (if size0 = 0 then 1 else size0);
          alignment = (if alignment0 < 16 then 16 else alignment0);
          start = ALIGN (heap_used s + HDR_SIZE) alignment;
          hdr_pos = start - HDR_SIZE;
          stop = start + ALIGN sz 16
      in if stop > HEAP_SIZE then (0, s)
         else let hdr = heap + hdr_pos;
                  s1 = store64 (hdr + 8) MAGIC (store64 hdr (ALIGN sz 16) s)
              in (heap + start, s1\<lparr>heap_used := stop\<rparr>))"

definition malloc :: "ptr \<Rightarrow> u64 \<Rightarrow> 'a libc_scheme \<Rightarrow> ptr \<times> 'a libc_scheme" where
  "malloc heap sz s = bump_alloc heap sz 16 s"

definition free :: "ptr \<Rightarrow> 'a libc_scheme \<Rightarrow> 'a libc_scheme" where
  "free p s = s"

definition calloc :: "ptr \<Rightarrow> u64 \<Rightarrow> u64 \<Rightarrow> 'a libc_scheme \<Rightarrow> ptr \<times> 'a libc_scheme" where
  "calloc heap nmemb sz s =
     (let tot = nmemb * sz
      in if nmemb \<noteq> 0 \<and> tot div nmemb \<noteq> sz then (0, s)
         else case malloc heap tot s of (p, s1) \<Rightarrow> (p, if p \<noteq> 0 then memset p 0 tot s1 else s1))"

definition realloc :: "ptr \<Rightarrow> ptr \<Rightarrow> u64 \<Rightarrow> 'a libc_scheme \<Rightarrow> ptr \<times> 'a libc_scheme" where
  "realloc heap p sz s =
     (if p = 0 then malloc heap sz s
      else if sz = 0 then (0, free p s)
      else let hdr = p - HDR_SIZE;
               old_size = (if load64 (hdr + 8) s = MAGIC then load64 hdr s else 0)
           in if sz \<le> old_size then (p, s)
              else case malloc heap sz s of (new_ptr, s1) \<Rightarrow>
                     (new_ptr, if new_ptr \<noteq> 0 \<and> old_size > 0 then memcpy new_ptr p old_size s1 else s1))"

definition posix_memalign :: "ptr \<Rightarrow> ptr \<Rightarrow> u64 \<Rightarrow> u64 \<Rightarrow> 'a libc_scheme \<Rightarrow> int \<times> 'a libc_scheme" where
  "posix_memalign heap memptr alignment sz s =
     (case bump_alloc heap sz alignment s of (p, s1) \<Rightarrow>
        if p = 0 then (12, s1) else (0, store64 memptr p s1))"

definition memalign :: "ptr \<Rightarrow> u64 \<Rightarrow> u64 \<Rightarrow> 'a libc_scheme \<Rightarrow> ptr \<times> 'a libc_scheme" where
  "memalign heap alignment sz s = bump_alloc heap sz alignment s"

definition aligned_alloc :: "ptr \<Rightarrow> u64 \<Rightarrow> u64 \<Rightarrow> 'a libc_scheme \<Rightarrow> ptr \<times> 'a libc_scheme" where
  "aligned_alloc heap alignment sz s = bump_alloc heap sz alignment s"

definition malloc_usable_size :: "ptr \<Rightarrow> 'a libc_scheme \<Rightarrow> u64" where
  "malloc_usable_size p s =
     (if p = 0 then 0
      else let hdr = p - HDR_SIZE in if load64 (hdr + 8) s = MAGIC then load64 hdr s else 0)"

definition malloc_trim :: "u64 \<Rightarrow> int" where
  "malloc_trim pad = 0"

text \<open>The override of musl's heap expander; \<open>pn\<close> points to the wanted size.\<close>

definition expand_heap :: "ptr \<Rightarrow> ptr \<Rightarrow> 'a libc_scheme \<Rightarrow> ptr \<times> 'a libc_scheme" where
  "expand_heap heap pn s =
     (case bump_alloc heap (load64 pn s) 4096 s of (p, s1) \<Rightarrow>
        if p = 0 then (0, s1\<lparr>errno := 12\<rparr>) else (p, s1))"

section \<open>The mmap wrappers\<close>

abbreviation MAP_FAILED :: ptr where "MAP_FAILED \<equiv> - 1"

definition mmap ::
  "'a libc_scheme build \<Rightarrow> ptr \<Rightarrow> u64 \<Rightarrow> u32 \<Rightarrow> u32 \<Rightarrow> u32 \<Rightarrow> u64 \<Rightarrow> 'a libc_scheme \<Rightarrow> (ptr, 'a libc_scheme) outcome" where
  "mmap b addr len prot flags fd offset s =
     andThen (ruby_on_bare_metal_syscall b 9 addr len (scast prot) (scast flags) (scast fd) offset s) (\<lambda>ret s1.
       if ret <s 0 \<and> - 4096 <s ret then Ret MAP_FAILED (s1\<lparr>errno := c_int (- ret)\<rparr>) else Ret ret s1)"

definition munmap :: "ptr \<Rightarrow> u64 \<Rightarrow> int" where
  "munmap addr len = 0"

definition mprotect :: "ptr \<Rightarrow> u64 \<Rightarrow> u32 \<Rightarrow> int" where
  "mprotect addr len prot = 0"

definition mremap ::
  "'a libc_scheme build \<Rightarrow> ptr \<Rightarrow> u64 \<Rightarrow> u64 \<Rightarrow> u32 \<Rightarrow> 'a libc_scheme \<Rightarrow> (ptr, 'a libc_scheme) outcome" where
  "mremap b old_addr old_size new_size flags s =
     (if old_addr > 0xFFFFFFFFFFFFF000 then mmap b 0 new_size 3 0x22 (- 1) 0 s
      else if new_size \<le> old_size then Ret old_addr s
      else andThen (mmap b 0 new_size 3 0x22 (- 1) 0 s) (\<lambda>new_addr s1.
             if new_addr = MAP_FAILED then Ret MAP_FAILED s1
             else Ret new_addr (memcpy new_addr old_addr old_size s1)))"

definition madvise :: "ptr \<Rightarrow> u64 \<Rightarrow> u32 \<Rightarrow> int" where
  "madvise addr len advice = 0"

text \<open>
  musl's internal names (with leading underscores in the source) forward to the functions above.
\<close>

definition internal_mmap ::
  "'a libc_scheme build \<Rightarrow> ptr \<Rightarrow> u64 \<Rightarrow> u32 \<Rightarrow> u32 \<Rightarrow> u32 \<Rightarrow> u64 \<Rightarrow> 'a libc_scheme \<Rightarrow> (ptr, 'a libc_scheme) outcome" where
  "internal_mmap = mmap"

definition internal_munmap :: "ptr \<Rightarrow> u64 \<Rightarrow> int" where "internal_munmap = munmap"

definition internal_mprotect :: "ptr \<Rightarrow> u64 \<Rightarrow> u32 \<Rightarrow> int" where "internal_mprotect = mprotect"

definition internal_mremap ::
  "'a libc_scheme build \<Rightarrow> ptr \<Rightarrow> u64 \<Rightarrow> u64 \<Rightarrow> u32 \<Rightarrow> 'a libc_scheme \<Rightarrow> (ptr, 'a libc_scheme) outcome" where
  "internal_mremap = mremap"

definition internal_madvise :: "ptr \<Rightarrow> u64 \<Rightarrow> u32 \<Rightarrow> int" where "internal_madvise = madvise"

definition libc_malloc :: "ptr \<Rightarrow> u64 \<Rightarrow> 'a libc_scheme \<Rightarrow> ptr \<times> 'a libc_scheme" where "libc_malloc = malloc"

definition libc_malloc_impl :: "ptr \<Rightarrow> u64 \<Rightarrow> 'a libc_scheme \<Rightarrow> ptr \<times> 'a libc_scheme" where "libc_malloc_impl = malloc"

definition libc_free :: "ptr \<Rightarrow> 'a libc_scheme \<Rightarrow> 'a libc_scheme" where "libc_free = free"

definition libc_calloc :: "ptr \<Rightarrow> u64 \<Rightarrow> u64 \<Rightarrow> 'a libc_scheme \<Rightarrow> ptr \<times> 'a libc_scheme" where "libc_calloc = calloc"

definition libc_realloc :: "ptr \<Rightarrow> ptr \<Rightarrow> u64 \<Rightarrow> 'a libc_scheme \<Rightarrow> ptr \<times> 'a libc_scheme" where "libc_realloc = realloc"

section \<open>Alignment\<close>

lemma unat_and_le: "unat (x AND m) \<le> unat (m :: u64)"
proof -
  have "(x AND m) AND m = x AND m" by (simp add: and.assoc)
  then show ?thesis by (metis word_and_le1 word_le_nat_alt)
qed

lemma unat_and_not: "unat (x AND NOT m) = unat x - unat (x AND m)" for x m :: u64
proof -
  have "(x AND m) + (x AND NOT m) = (x AND m) OR (x AND NOT m)"
    by (rule disjunctive_add) (simp add: bit_simps)
  also have "\<dots> = x" by (rule bit_word_eqI) (auto simp: bit_simps)
  finally have "x AND NOT m = x - (x AND m)" by (simp add: algebra_simps)
  moreover have "x AND m \<le> x" by (rule word_and_le2)
  ultimately show ?thesis by (simp add: unat_sub)
qed

text \<open>Without overflow, \<open>ALIGN\<close> rounds up by less than the alignment, whatever the alignment is.\<close>

lemma ALIGN_bounds:
  assumes "0 < unat a" and "unat x + unat a \<le> 2 ^ 64"
  shows "unat x \<le> unat (ALIGN x a)" and "unat (ALIGN x a) < unat x + unat a"
proof -
  have a: "unat (a - 1) = unat a - 1" using assms(1) by (simp add: unat_sub word_le_nat_alt)
  have e: "x + a - 1 = x + (a - 1)" by simp
  have y: "unat (x + (a - 1)) = unat x + (unat a - 1)"
    using assms by (subst unat_word_ariths) (simp add: a)
  have "unat ((x + (a - 1)) AND (a - 1)) \<le> unat a - 1" using unat_and_le [of "x + (a - 1)" "a - 1"] a by simp
  then show "unat x \<le> unat (ALIGN x a)" "unat (ALIGN x a) < unat x + unat a"
    using assms(1) unfolding ALIGN_def e unat_and_not y by linarith+
qed

lemma ALIGN_round_up:
  assumes "k < 64" and "unat x + 2 ^ k \<le> 2 ^ 64"
  shows "unat (ALIGN x (2 ^ k)) = round_up (2 ^ k) (unat x)"
proof -
  have e: "x + 2 ^ k - 1 = x + mask k" "(2 ^ k - 1 :: u64) = mask k" by (simp_all add: mask_eq_exp_minus_1)
  show ?thesis unfolding ALIGN_def e using assms by (intro unat_align) simp
qed

lemma ALIGN_16: "unat x + 16 \<le> 2 ^ 64 \<Longrightarrow> unat (ALIGN x 16) = round_up 16 (unat x)"
  using ALIGN_round_up [of 4 x] by simp

section \<open>The allocator contract\<close>

definition libc_inv :: "ptr \<Rightarrow> 'a libc_scheme \<Rightarrow> bool" where
  "libc_inv heap s \<longleftrightarrow> heap_place (2 ^ 27) heap \<and> heap_used s \<le> HEAP_SIZE"

text \<open>The payload of a request and the offset of its block, as numbers.\<close>

definition payload :: "u64 \<Rightarrow> nat" where
  "payload sz = round_up 16 (max 1 (unat sz))"

definition block_start :: "u64 \<Rightarrow> 'a libc_scheme \<Rightarrow> nat" where
  "block_start al s = unat (ALIGN (heap_used s + HDR_SIZE) (if al < 16 then 16 else al))"

text \<open>The header in front of a block: its size and the magic number.\<close>

definition with_header :: "ptr \<Rightarrow> nat \<Rightarrow> 'a libc_scheme \<Rightarrow> 'a libc_scheme" where
  "with_header p n s = store64 (p - 16 + 8) MAGIC (store64 (p - 16) (of_nat n) s)"

lemma payload_bounds: "unat sz \<le> payload sz" "16 \<le> payload sz" "payload sz < unat sz + 17" "16 dvd payload sz"
proof -
  have "max 1 (unat sz) \<le> payload sz" "payload sz < max 1 (unat sz) + 16" and d: "16 dvd payload sz"
    unfolding payload_def by (rule round_up_props; simp)+
  then show "unat sz \<le> payload sz" "payload sz < unat sz + 17" by linarith+
  show "16 \<le> payload sz"
    using d \<open>max 1 (unat sz) \<le> payload sz\<close> by (intro dvd_imp_le) simp_all
  show "16 dvd payload sz" by (rule d)
qed

lemma block_start_bounds:
  assumes "heap_used s \<le> HEAP_SIZE" and "unat al \<le> 2 ^ 62"
  shows "unat (heap_used s) + 16 \<le> block_start al s" and "block_start al s < 2 ^ 63"
proof -
  let ?a = "if al < 16 then 16 else al :: u64"
  have u: "unat (heap_used s) \<le> 2 ^ 27" using assms(1) by (simp add: word_le_nat_alt)
  then have h: "unat (heap_used s + HDR_SIZE) = unat (heap_used s) + 16" by (simp add: unat_word_ariths)
  have a: "0 < unat ?a" "unat ?a \<le> 2 ^ 62" using assms(2) by (auto simp: word_less_nat_alt)
  have "unat (heap_used s + HDR_SIZE) + unat ?a \<le> 2 ^ 64" unfolding h using a(2) u by simp
  note b = ALIGN_bounds [OF a(1) this]
  show "unat (heap_used s) + 16 \<le> block_start al s" using b(1) unfolding block_start_def h .
  show "block_start al s < 2 ^ 63" using b(2) u a(2) unfolding block_start_def h by simp
qed

lemma bump_alloc_eq:
  assumes "libc_inv heap s" and "unat sz \<le> 2 ^ 62" and "unat al \<le> 2 ^ 62"
  shows "bump_alloc heap sz al s =
     (let st = block_start al s; n = payload sz; p = heap + of_nat st
      in if st + n \<le> 2 ^ 27 then (p, (with_header p n s)\<lparr>heap_used := of_nat (st + n)\<rparr>) else (0, s))"
proof -
  let ?a = "if al < 16 then 16 else al :: u64" and ?z = "if sz = 0 then 1 else sz :: u64"
  let ?st = "ALIGN (heap_used s + HDR_SIZE) ?a"
  have used: "heap_used s \<le> HEAP_SIZE" using assms(1) by (simp add: libc_inv_def)
  have st: "?st = of_nat (block_start al s)" by (simp add: block_start_def)
  have z: "unat ?z = max 1 (unat sz)" by (auto simp: unat_gt_0 max_def unat_eq_0 Suc_le_eq)
  have "unat (ALIGN ?z 16) = payload sz"
    unfolding payload_def z [symmetric] using assms(2) z by (intro ALIGN_16) simp
  then have n: "ALIGN ?z 16 = of_nat (payload sz)" by (metis word_of_nat_unat)
  have lt: "block_start al s + payload sz < 2 ^ 64"
    using block_start_bounds(2) [OF used assms(3)] payload_bounds(3) [of sz] assms(2) by simp
  have stop: "of_nat (block_start al s) + of_nat (payload sz) = (of_nat (block_start al s + payload sz) :: u64)" by simp
  have "unat (of_nat (block_start al s + payload sz) :: u64) = block_start al s + payload sz"
    using lt by (simp add: unat_of_nat del: of_nat_add)
  then have test: "(of_nat (block_start al s + payload sz) :: u64) > HEAP_SIZE \<longleftrightarrow> \<not> block_start al s + payload sz \<le> 2 ^ 27"
    by (simp add: word_less_nat_alt not_le del: of_nat_add)
  have hdr: "heap + (of_nat (block_start al s) - 16) = heap + of_nat (block_start al s) - 16" by simp
  show ?thesis
    unfolding bump_alloc_def Let_def st n stop test hdr with_header_def by simp
qed

lemma block_address:
  assumes "libc_inv heap s" and "st + n \<le> 2 ^ 27" and "0 < n" and "16 \<le> st"
  shows "unat (heap + of_nat st) = unat heap + st" and "heap + of_nat st \<noteq> 0"
proof -
  have "unat heap + 2 ^ 27 < 2 ^ 64" using assms(1) by (simp add: libc_inv_def heap_place_def)
  then show u: "unat (heap + of_nat st) = unat heap + st"
    using assms(2) by (simp add: unat_word_ariths unat_of_nat)
  then show "heap + of_nat st \<noteq> 0" using assms(4) by auto
qed

text \<open>Requests are a size and an alignment; NULL is a failure.\<close>

definition heap_alloc :: "ptr \<Rightarrow> u64 \<times> u64 \<Rightarrow> 'a libc_scheme \<Rightarrow> (ptr \<times> 'a libc_scheme) option" where
  "heap_alloc heap r s =
     (case bump_alloc heap (fst r) (snd r) s of (p, t) \<Rightarrow> if p = 0 then None else Some (p, t))"

definition request_ok :: "u64 \<times> u64 \<Rightarrow> bool" where
  "request_ok r \<longleftrightarrow> unat (fst r) \<le> 2 ^ 62 \<and> unat (snd r) \<le> 2 ^ 62"

text \<open>Everything one successful allocation does.\<close>

lemma heap_alloc_Some:
  assumes "libc_inv heap s" and "request_ok r" and "heap_alloc heap r s = Some (p, t)"
  shows "unat p = unat heap + block_start (snd r) s" and "unat (heap_used s) + 16 \<le> block_start (snd r) s"
    and "unat (heap_used t) = block_start (snd r) s + payload (fst r)" and "unat (heap_used t) \<le> 2 ^ 27"
    and "t = (with_header p (payload (fst r)) s)\<lparr>heap_used := heap_used t\<rparr>" and "p \<noteq> 0"
proof -
  let ?st = "block_start (snd r) s" and ?n = "payload (fst r)"
  have used: "heap_used s \<le> HEAP_SIZE" using assms(1) by (simp add: libc_inv_def)
  show ge: "unat (heap_used s) + 16 \<le> ?st"
    using block_start_bounds(1) [OF used] assms(2) by (simp add: request_ok_def)
  have eq: "bump_alloc heap (fst r) (snd r) s = (p, t)" and "p \<noteq> 0"
    using assms(3) by (auto simp: heap_alloc_def split: prod.splits if_splits)
  then have le: "?st + ?n \<le> 2 ^ 27" and p: "p = heap + of_nat ?st"
    and t: "t = (with_header p ?n s)\<lparr>heap_used := of_nat (?st + ?n)\<rparr>"
    using assms(2) by (auto simp: bump_alloc_eq [OF assms(1)] request_ok_def Let_def split: if_splits)
  show "p \<noteq> 0" by fact
  show "unat p = unat heap + ?st"
    unfolding p using payload_bounds(2) [of "fst r"] ge by (intro block_address(1) [OF assms(1) le]) simp_all
  show u: "unat (heap_used t) = ?st + ?n" using le by (simp add: t unat_of_nat del: of_nat_add)
  then show "unat (heap_used t) \<le> 2 ^ 27" using le by simp
  show "t = (with_header p ?n s)\<lparr>heap_used := heap_used t\<rparr>" by (simp add: t)
qed

text \<open>The header occupies the sixteen bytes below the block.\<close>

lemma below_block:
  fixes p :: ptr
  assumes "16 \<le> unat p" and "i < 16"
  shows "unat (p - 16 + of_nat i) = unat p - 16 + i"
proof -
  have "16 \<le> p" using assms(1) by (simp add: word_le_nat_alt)
  then have "unat (p - 16) = unat p - 16" by (simp add: unat_sub)
  then show ?thesis using assms unat_bound [of p] by (simp add: unat_word_ariths unat_of_nat)
qed

lemma with_header_frame:
  assumes "16 \<le> unat p" and "unat a < unat p - 16 \<or> unat p \<le> unat a"
  shows "mem (with_header p n s) a = mem s a"
proof -
  have base: "unat (p - 16) = unat p - 16" "unat (p - 16 + 8) = unat p - 8"
    using below_block [OF assms(1), of 0] below_block [OF assms(1), of 8] assms(1) by simp_all
  have "unat p \<le> 2 ^ 64" using unat_bound [of p] by simp
  then have "\<not> in_region (p - 16) 8 a" "\<not> in_region (p - 16 + 8) 8 a"
    using assms base by (subst in_region_iff; auto)+
  then show ?thesis by (simp add: with_header_def mem_store mem_frames)
qed

lemma usable_header:
  assumes "p \<noteq> 0"
  shows "malloc_usable_size p (with_header p n s) = of_nat n"
proof -
  have "load64 (p - 16) (store64 (p - 16 + 8) v t) = (load64 (p - 16) t :: u64)" for v :: u64 and t :: "'a libc_scheme"
  proof (rule load_store_other)
    fix i :: nat assume "i < 8"
    then have "in_region (p - 16 + of_nat 8) 8 (p - 16 + of_nat i) = False" by (subst in_region_index) auto
    then show "8 \<le> unat (p - 16 - (p - 16 + 8) + of_nat i)" by (simp add: in_region_def not_less)
  qed
  then show ?thesis using assms
    by (simp only: malloc_usable_size_def with_header_def load_store_widths Let_def if_False if_True simp_thms)
qed

lemma usable_cong:
  assumes "16 \<le> unat p" and "\<And>a. unat a < unat p \<Longrightarrow> unat p - 16 \<le> unat a \<Longrightarrow> mem t a = mem s a"
  shows "malloc_usable_size p t = malloc_usable_size p s"
proof -
  have byte: "mem t (p - 16 + of_nat i) = mem s (p - 16 + of_nat i)" if "i < 16" for i
    using below_block [OF assms(1) that] that assms(1) by (intro assms(2)) simp_all
  have "load64 (p - 16) t = (load64 (p - 16) s :: u64)"
    by (intro load_cong byte) simp
  moreover have "load64 (p - 16 + 8) t = (load64 (p - 16 + 8) s :: u64)"
  proof (intro load_cong)
    fix i :: nat assume "i < 8"
    then show "mem t (p - 16 + 8 + of_nat i) = mem s (p - 16 + 8 + of_nat i)"
      using byte [of "8 + i"] by (simp add: algebra_simps)
  qed
  ultimately show ?thesis by (simp add: malloc_usable_size_def Let_def)
qed

interpretation libc_heap: bump_allocator "heap_alloc heap" "\<lambda>r. payload (fst r)" request_ok
  "libc_inv heap" "\<lambda>s. unat heap + unat (heap_used s)" "unat heap + 2 ^ 27" mem
proof unfold_locales
  fix s t :: "'a libc_scheme" and r :: "u64 \<times> u64" and p a :: ptr
  assume inv: "libc_inv heap s" and ok: "request_ok r" and al: "heap_alloc heap r s = Some (p, t)"
  note res = heap_alloc_Some [OF inv ok al]
  show "libc_inv heap t" using inv res(4) by (simp add: libc_inv_def word_le_nat_alt)
  show "unat heap + unat (heap_used s) \<le> unat p \<and> unat p + payload (fst r) \<le> unat heap + unat (heap_used t)"
    using res(1-3) by simp
  show "mem t a = mem s a" if "unat a < unat heap + unat (heap_used s) \<or> unat heap + unat (heap_used t) \<le> unat a"
  proof -
    have "mem (with_header p (payload (fst r)) s) a = mem s a"
      using that res(1-3) by (intro with_header_frame) auto
    then show ?thesis by (subst res(5)) simp
  qed
next
  show "unat heap + unat (heap_used s) \<le> unat heap + 2 ^ 27" if "libc_inv heap s" for s :: "'a libc_scheme"
    using that by (simp add: libc_inv_def word_le_nat_alt)
qed

section \<open>Lemmas\<close>

lemma malloc_alloc: "malloc heap n s = (p, t) \<Longrightarrow> p \<noteq> 0 \<Longrightarrow> heap_alloc heap (n, 16) s = Some (p, t)"
  by (simp add: heap_alloc_def malloc_def)

lemma request_16: "unat n \<le> 2 ^ 62 \<Longrightarrow> request_ok (n, 16)"
  by (simp add: request_ok_def)

text \<open>A block of \<open>malloc\<close>: its place, its header and what it leaves alone.\<close>

lemma malloc_Some:
  assumes "libc_inv heap s" and "unat n \<le> 2 ^ 62" and "malloc heap n s = (p, t)" and "p \<noteq> 0"
  shows "unat heap + unat (heap_used s) + 16 \<le> unat p" and "unat p + payload n = unat heap + unat (heap_used t)"
    and "malloc_usable_size p t = of_nat (payload n)" and "libc_inv heap t"
    and "\<And>a. unat a < unat heap + unat (heap_used s) \<or> unat p \<le> unat a \<Longrightarrow> mem t a = mem s a"
    and "unat p + payload n < 2 ^ 64"
proof -
  have al: "heap_alloc heap (n, 16) s = Some (p, t)" using assms(3,4) by (rule malloc_alloc)
  note res = heap_alloc_Some [OF assms(1) request_16 [OF assms(2)] al]
  show ge: "unat heap + unat (heap_used s) + 16 \<le> unat p" and up: "unat p + payload n = unat heap + unat (heap_used t)"
    using res by simp_all
  have "malloc_usable_size p t = malloc_usable_size p (with_header p (payload n) s)"
    using ge by (intro usable_cong) (simp, subst res(5), simp)
  then show "malloc_usable_size p t = of_nat (payload n)" by (simp add: usable_header [OF assms(4)])
  show inv: "libc_inv heap t" by (rule libc_heap.alloc_inv [OF assms(1) request_16 [OF assms(2)] al])
  show "mem t a = mem s a" if "unat a < unat heap + unat (heap_used s) \<or> unat p \<le> unat a" for a
  proof -
    have "mem (with_header p (payload n) s) a = mem s a"
      using that ge by (intro with_header_frame) auto
    then show ?thesis by (subst res(5)) simp
  qed
  show "unat p + payload n < 2 ^ 64"
    unfolding up using inv by (simp add: libc_inv_def heap_place_def word_le_nat_alt)
qed

lemma realloc_grow:
  assumes "p \<noteq> 0" and "malloc_usable_size p s < n"
  shows "realloc heap p n s =
     (case malloc heap n s of (q, t) \<Rightarrow>
        (q, if q \<noteq> 0 \<and> malloc_usable_size p s > 0 then memcpy q p (malloc_usable_size p s) t else t))"
proof -
  have "n \<noteq> 0" using assms(2) by auto
  moreover have "\<not> n \<le> malloc_usable_size p s" using assms(2) by simp
  moreover have u: "malloc_usable_size p s = (if load64 (p - 16 + 8) s = MAGIC then load64 (p - 16) s else 0)"
    using assms(1) by (simp only: malloc_usable_size_def Let_def if_False)
  ultimately show ?thesis
    using assms(1) unfolding realloc_def Let_def u [symmetric] by (simp only: if_False)
qed

lemma malloc_cases:
  assumes "libc_inv heap s" and "unat n \<le> 2 ^ 62"
  shows "if round_up 16 (unat (heap_used s) + 16) + payload n \<le> 2 ^ 27
    then \<exists>p t. malloc heap n s = (p, t) \<and> p \<noteq> 0 \<and> libc_inv heap t
        \<and> unat p = unat heap + round_up 16 (unat (heap_used s) + 16)
        \<and> malloc_usable_size p t = of_nat (payload n) \<and> unat n \<le> payload n
        \<and> (\<forall>a. unat a < unat heap + unat (heap_used s) \<or> unat p \<le> unat a \<longrightarrow> mem t a = mem s a)
    else malloc heap n s = (0, s)"
proof -
  have used: "unat (heap_used s) \<le> 2 ^ 27" using assms(1) by (simp add: libc_inv_def word_le_nat_alt)
  then have h: "unat (heap_used s + HDR_SIZE) = unat (heap_used s) + 16" by (simp add: unat_word_ariths)
  have st: "block_start 16 s = round_up 16 (unat (heap_used s) + 16)"
    unfolding block_start_def h [symmetric] using ALIGN_16 [of "heap_used s + HDR_SIZE"] h used by simp
  have eq: "malloc heap n s =
     (let st = block_start 16 s; k = payload n; p = heap + of_nat st
      in if st + k \<le> 2 ^ 27 then (p, (with_header p k s)\<lparr>heap_used := of_nat (st + k)\<rparr>) else (0, s))"
    unfolding malloc_def using assms by (intro bump_alloc_eq) simp_all
  show ?thesis
  proof (cases "block_start 16 s + payload n \<le> 2 ^ 27")
    case False
    then show ?thesis unfolding st using eq st by simp
  next
    case True
    let ?p = "heap + of_nat (block_start 16 s)"
    have "16 \<le> block_start 16 s" unfolding st using round_up_props(1) [of 16 "unat (heap_used s) + 16"] by simp
    note p = block_address [OF assms(1) True _ this]
    have pos: "0 < payload n" using payload_bounds(2) [of n] by simp
    obtain t where t: "malloc heap n s = (?p, t)" using eq True by (simp add: Let_def)
    note res = malloc_Some [OF assms t p(2) [OF pos]]
    show ?thesis
      using True t p [OF pos] res(3,4,5) payload_bounds(1) [of n] unfolding st by auto
  qed
qed

text \<open>The overflow test of \<open>calloc\<close> detects exactly the products that do not fit.\<close>

lemma calloc_overflow:
  fixes a c :: u64
  shows "a \<noteq> 0 \<and> a * c div a \<noteq> c \<longleftrightarrow> 2 ^ 64 \<le> unat a * unat c"
proof (cases "unat a * unat c < 2 ^ 64")
  case True
  then have "unat (a * c) = unat a * unat c" by (simp add: unat_word_ariths)
  then have "unat (a * c div a) = unat c" if "a \<noteq> 0"
    using that by (simp add: unat_div_distrib unat_eq_0)
  then have "a * c div a = c" if "a \<noteq> 0" using that by (metis word_of_nat_unat)
  with True show ?thesis by auto
next
  case False
  have "unat (a * c) < 2 ^ 64" using unat_bound [of "a * c"] by simp
  moreover have "unat c * unat a \<le> unat (a * c)" if "a * c div a = c"
  proof -
    have "unat c = unat (a * c) div unat a" using arg_cong [OF that, of unat] by (simp add: unat_div_distrib)
    then show ?thesis by (metis div_times_less_eq_dividend)
  qed
  ultimately have "a * c div a \<noteq> c" using False by (auto simp: mult.commute)
  moreover have "a \<noteq> 0" using False by auto
  ultimately show ?thesis using False by simp
qed

text \<open>The wrappers in terms of the system calls.\<close>

lemma ucast_scast: "ucast (scast (w :: u32) :: u64) = w"
proof (rule bit_word_eqI)
  fix n assume "n < LENGTH(32)"
  then show "bit (ucast (scast w :: u64) :: u32) n = bit w n"
    by (cases "n = 31") (auto simp: bit_simps min_def)
qed

lemma sys_mmap_ignores: "sys_mmap a n prot flags fd offset s = sys_mmap a' n prot flags' fd' offset' s"
  by (simp add: sys_mmap_def)

lemma mmap_call:
  "syscall_trace s = 0 \<Longrightarrow>
     ruby_on_bare_metal_syscall b 9 a1 a2 a3 a4 a5 a6 s = lift (sys_mmap a1 a2 (ucast a3) (ucast a4) (ucast a5) a6 s)"
  by (rule table_row) (simp_all add: syscall_table_def)

definition map_failed :: "u64 \<times> 'a libc_scheme \<Rightarrow> (ptr, 'a libc_scheme) outcome" where
  "map_failed x = (case x of (r, t) \<Rightarrow> if r <s 0 then Ret MAP_FAILED (t\<lparr>errno := 12\<rparr>) else Ret r t)"

lemma mmap_eq:
  assumes "syscall_trace s = 0" and "mmap_inv s" and "unat n \<le> 2 ^ 63"
  shows "mmap b a n prot flags fd offset s = map_failed (sys_mmap a n prot flags fd offset s)"
proof -
  have enomem: "- 4096 <s (- 12 :: u64)" "c_int 12 = 12" by (simp_all add: word_sless_alt c_int_def)
  have "page_mark s \<le> unat MMAP_LIMIT" by (rule page_mark_props(2) [OF assms(2)])
  then have "\<not> (of_nat (page_mark s) :: u64) <s 0" by (intro not_negative) simp
  then show ?thesis
    using ENOMEM_negative enomem
    by (simp add: mmap_def mmap_call [OF assms(1)] ucast_scast sys_mmap_eq [OF assms(2,3)] map_failed_def)
qed

definition blank_libc :: libc where
  "blank_libc = sys.extend demo_sys \<lparr>heap_used = 0, errno = 0\<rparr>"

lemma blank_libc_simps [simp]:
  "heap_used blank_libc = 0" "syscall_trace blank_libc = 0" "mmap_next blank_libc = MMAP_BASE"
  by (simp_all add: blank_libc_def sys.defs demo_sys_def blank_sys_def uefi.defs blank_uefi_def)

text \<open>The examples place the heap array at 4 MB.\<close>

lemma blank_libc_inv: "libc_inv 0x400000 blank_libc" "libc_inv 0x400000 (blank_libc\<lparr>heap_used := 8192\<rparr>)"
  by (simp_all add: libc_inv_def heap_place_def)

lemma first_block:
  "\<exists>p s. malloc 0x400000 100 blank_libc = (p, s) \<and> p \<noteq> 0 \<and> libc_inv 0x400000 s
     \<and> malloc_usable_size p s = 112 \<and> unat p = 0x400010 \<and> unat (heap_used s) = 128"
proof -
  have r: "round_up 16 16 = 16" "payload 100 = 112" by (simp_all add: payload_def round_up_def)
  obtain p s where ps: "malloc 0x400000 100 blank_libc = (p, s)" "p \<noteq> 0" "libc_inv 0x400000 s"
      "malloc_usable_size p s = 112" "unat p = 0x400010"
    using malloc_cases [OF blank_libc_inv(1), of 100] by (auto simp: r)
  moreover have "unat (heap_used s) = 128"
    using malloc_Some(2) [OF blank_libc_inv(1) _ ps(1,2)] by (simp add: r ps(5))
  ultimately show ?thesis by blast
qed

section \<open>Properties\<close>

text \<open>
  C3 (invariant).  Any sequence of allocations through \<open>bump_alloc\<close>, of any sizes and alignments up
  to 2^62, obtains blocks that lie in the heap array above everything handed out before and are
  pairwise disjoint with their 16-byte-rounded payloads; the mark stays inside the array.
\<close>

theorem malloc_blocks:
  assumes "libc_inv heap s" and "\<forall>(n, al) \<in> set rs. unat n \<le> 2 ^ 62 \<and> unat al \<le> 2 ^ 62"
    and "run_allocs (heap_alloc heap) (\<lambda>r. payload (fst r)) rs s = (bs, t)"
  shows "apart bs \<and> within (unat heap + unat (heap_used s)) (unat heap + 2 ^ 27) bs \<and> heap_used t \<le> HEAP_SIZE"
proof -
  have ok: "\<forall>r \<in> set rs. request_ok r" using assms(2) by (auto simp: request_ok_def)
  show ?thesis
    using libc_heap.run_allocs_limit [OF assms(1) ok assms(3)] libc_heap.run_allocs_inv [OF assms(1) ok assms(3)]
    by (simp add: libc_inv_def)
qed

theorem malloc_blocks_witness:
  "let bs = fst (run_allocs (heap_alloc 0x400000) (\<lambda>r. payload (fst r)) [(100, 16), (0, 64), (0x10000000, 16), (7, 4096)] blank_libc)
   in apart bs \<and> within 0x400000 0x8400000 bs"
proof -
  obtain bs t where "run_allocs (heap_alloc 0x400000) (\<lambda>r. payload (fst r)) [(100, 16), (0, 64), (0x10000000, 16), (7, 4096)] blank_libc = (bs, t)"
    by fastforce
  from malloc_blocks [OF blank_libc_inv(1) _ this] this show ?thesis by simp
qed

text \<open>
  (functional)  \<open>malloc\<close> of up to 2^62 bytes either returns NULL and changes nothing, exactly
  when header and rounded payload no longer fit into the 128 MB array, or returns a block above
  the mark whose recorded size is the payload (at least the size asked for), without touching any
  byte handed out before or the block's own contents.
\<close>

theorem malloc_outcomes:
  assumes "libc_inv heap s" and "unat n \<le> 2 ^ 62"
  shows "if round_up 16 (unat (heap_used s) + 16) + payload n \<le> 2 ^ 27
    then \<exists>p t. malloc heap n s = (p, t) \<and> p \<noteq> 0 \<and> libc_inv heap t
        \<and> unat p = unat heap + round_up 16 (unat (heap_used s) + 16)
        \<and> malloc_usable_size p t = of_nat (payload n) \<and> unat n \<le> payload n
        \<and> (\<forall>a. unat a < unat heap + unat (heap_used s) \<or> unat p \<le> unat a \<longrightarrow> mem t a = mem s a)
    else malloc heap n s = (0, s)"
  using malloc_cases [OF assms] .

theorem malloc_outcomes_witness:
  "(\<exists>p t. malloc 0x400000 100 blank_libc = (p, t) \<and> p \<noteq> 0 \<and> unat p = 0x400010)
   \<and> malloc 0x400000 0x10000000 blank_libc = (0, blank_libc)"
proof -
  have r: "round_up 16 16 = 16" "payload 100 = 112" "payload 0x10000000 = 0x10000000"
    by (simp_all add: payload_def round_up_def)
  show ?thesis
    using malloc_outcomes [OF blank_libc_inv(1), of 100] malloc_outcomes [OF blank_libc_inv(1), of "0x10000000"]
    by (simp add: r) blast
qed

text \<open>
  C12 (functional).  Growing a live block with \<open>realloc\<close> to at most 2^62 bytes, when that succeeds, moves it: the
  new block starts with the whole old payload, is large enough, lies above the old one, and the
  old bytes are still there.
\<close>

theorem realloc_preserves:
  assumes "libc_inv heap s" and "p \<noteq> 0" and "unat p + unat (malloc_usable_size p s) \<le> unat heap + unat (heap_used s)"
    and "malloc_usable_size p s < n" and "unat n \<le> 2 ^ 62" and "realloc heap p n s = (q, t)" and "q \<noteq> 0"
  shows "let k = unat (malloc_usable_size p s) in
     mem_bytes (mem t) q k = mem_bytes (mem s) p k \<and> mem_bytes (mem t) p k = mem_bytes (mem s) p k
     \<and> unat p + k \<le> unat q \<and> n \<le> malloc_usable_size q t \<and> libc_inv heap t"
proof -
  let ?old = "malloc_usable_size p s"
  obtain u where u: "malloc heap n s = (q, u)"
    and t: "t = (if ?old > 0 then memcpy q p ?old u else u)"
    using assms(6,7) realloc_grow [OF assms(2,4), of heap] by (auto split: prod.splits)
  note res = malloc_Some [OF assms(1,5) u assms(7)]
  have lt: "unat ?old < payload n"
    using assms(4) payload_bounds(1) [of n] by (simp add: word_less_nat_alt)
  have pq: "unat p + unat ?old \<le> unat q" using res(1) assms(3) by simp
  have out: "\<not> in_region q (unat ?old) a" if "unat a < unat q" for a
    using that res(6) lt by (subst in_region_iff) auto
  have mem_t: "mem t a = mem u a" if "unat a < unat q" for a
    using out [OF that] by (simp add: t mem_memcpy mem_frames)
  have below: "unat a < unat p + unat ?old" if "in_region p (unat ?old) a" for a
    using that res(6) lt pq by (subst (asm) in_region_iff) auto
  have old: "mem u a = mem s a" if "in_region p (unat ?old) a" for a
    using below [OF that] assms(3) by (intro res(5)) simp
  have "mem_bytes (mem t) p (unat ?old) = mem_bytes (mem s) p (unat ?old)"
    using old mem_t below pq by (intro mem_bytes_frame) (fastforce, use unat_bound [of ?old] in simp)
  moreover have "mem_bytes (mem t) q (unat ?old) = mem_bytes (mem u) p (unat ?old)"
    using unat_bound [of ?old] by (cases "?old = 0") (simp_all add: t mem_memcpy mem_bytes_copy word_neq_0_conv mem_bytes_def [of _ _ 0])
  moreover have "mem_bytes (mem u) p (unat ?old) = mem_bytes (mem s) p (unat ?old)"
    using old by (intro mem_bytes_frame) (simp, use unat_bound [of ?old] in simp)
  moreover have "malloc_usable_size q t = of_nat (payload n)"
    unfolding res(3) [symmetric] using res(1) mem_t by (intro usable_cong) simp_all
  moreover have "n \<le> of_nat (payload n)"
    using payload_bounds(1) [of n] res(6) by (simp add: word_le_nat_alt unat_of_nat)
  moreover have "libc_inv heap t" using res(4) by (simp add: t libc_inv_def memcpy_def)
  ultimately show ?thesis using pq by (simp add: Let_def)
qed

theorem realloc_preserves_witness:
  "\<exists>p s q t. malloc 0x400000 100 blank_libc = (p, s) \<and> realloc 0x400000 p 1000 s = (q, t)
     \<and> mem_bytes (mem t) q 112 = mem_bytes (mem s) p 112 \<and> 1000 \<le> malloc_usable_size q t"
proof -
  obtain p s where ps: "malloc 0x400000 100 blank_libc = (p, s)" "p \<noteq> 0" "libc_inv 0x400000 s"
      "malloc_usable_size p s = 112" "unat p = 0x400010" "unat (heap_used s) = 128"
    using first_block by blast
  have r: "round_up 16 144 = 144" "payload 1000 = 1008" by (simp_all add: payload_def round_up_def)
  obtain q u where qu: "malloc 0x400000 1000 s = (q, u)" "q \<noteq> 0"
    using malloc_cases [OF ps(3), of 1000] by (auto simp: ps(6) r)
  obtain t where t: "realloc 0x400000 p 1000 s = (q, t)"
    using realloc_grow [OF ps(2), of s 1000 "0x400000"] qu(1) by (simp add: ps(4))
  have old: "unat p + unat (malloc_usable_size p s) \<le> unat (0x400000 :: ptr) + unat (heap_used s)" "malloc_usable_size p s < 1000"
    by (simp_all add: ps(4-6))
  show ?thesis
    using realloc_preserves [OF ps(3,2) old _ t qu(2)] ps(1) t by (auto simp: ps(4) Let_def)
qed

text \<open>
  C28 (functional).  \<open>calloc\<close>, on a heap within its bounds and for a product of count and size that is
  at most 2^62 or does not fit into 64 bits at all: it returns NULL and changes nothing when the
  product does not fit into 64 bits or when a header and the rounded product no longer fit into the
  128 MB array; otherwise it returns the block after the header, filled with as many zeros as the
  product says, leaving the bytes in front of the heap mark and behind the zeros as they were.
\<close>

theorem calloc_zeroes:
  assumes "libc_inv heap s" and "unat k * unat n \<le> 2 ^ 62 \<or> 2 ^ 64 \<le> unat k * unat n"
  shows "if 2 ^ 64 \<le> unat k * unat n
      \<or> 2 ^ 27 < round_up 16 (unat (heap_used s) + 16) + payload (of_nat (unat k * unat n))
    then calloc heap k n s = (0, s)
    else \<exists>p t. calloc heap k n s = (p, t) \<and> p \<noteq> 0 \<and> libc_inv heap t
      \<and> unat p = unat heap + round_up 16 (unat (heap_used s) + 16)
      \<and> mem_bytes (mem t) p (unat k * unat n) = replicate (unat k * unat n) 0
      \<and> (\<forall>a. unat a < unat heap + unat (heap_used s) \<or> unat p + unat k * unat n \<le> unat a \<longrightarrow> mem t a = mem s a)"
proof (cases "2 ^ 64 \<le> unat k * unat n")
  case True
  then show ?thesis using calloc_overflow [of k n] by (simp add: calloc_def Let_def)
next
  case False
  then have prod: "unat (k * n) = unat k * unat n" by (simp add: unat_word_ariths)
  have ok: "\<not> (k \<noteq> 0 \<and> k * n div k \<noteq> n)" using calloc_overflow [of k n] False by simp
  have c: "calloc heap k n s = (case malloc heap (k * n) s of (p, s1) \<Rightarrow> (p, if p \<noteq> 0 then memset p 0 (k * n) s1 else s1))"
    unfolding calloc_def Let_def if_not_P [OF ok] ..
  have le: "unat (k * n) \<le> 2 ^ 62" using assms(2) False by (simp add: prod)
  note out = malloc_cases [OF assms(1) le]
  have w: "(of_nat (unat k * unat n) :: u64) = k * n" by simp
  show ?thesis
  proof (cases "round_up 16 (unat (heap_used s) + 16) + payload (k * n) \<le> 2 ^ 27")
    case fits: False
    with out have "malloc heap (k * n) s = (0, s)" by simp
    then show ?thesis using fits by (simp add: c w del: of_nat_mult)
  next
    case fits: True
    then obtain p u where u: "malloc heap (k * n) s = (p, u)" "p \<noteq> 0" "libc_inv heap u"
        "unat p = unat heap + round_up 16 (unat (heap_used s) + 16)"
        "\<forall>a. unat a < unat heap + unat (heap_used s) \<or> unat p \<le> unat a \<longrightarrow> mem u a = mem s a"
      using out by auto
    have end_ok: "unat p + unat (k * n) < 2 ^ 64"
      using malloc_Some(6) [OF assms(1) le u(1,2)] payload_bounds(1) [of "k * n"] by simp
    have low: "unat heap + unat (heap_used s) \<le> unat p"
      using u(4) round_up_props(1) [of 16 "unat (heap_used s) + 16"] by simp
    let ?t = "memset p 0 (k * n) u"
    have frame: "mem ?t a = mem s a" if "unat a < unat heap + unat (heap_used s) \<or> unat p + unat k * unat n \<le> unat a" for a
    proof -
      have "\<not> in_region p (unat (k * n)) a"
        using that low end_ok by (subst in_region_iff) (auto simp: prod)
      then have "mem ?t a = mem u a" by (simp add: mem_memset mem_set_def in_region_def)
      then show ?thesis using that u(5) by auto
    qed
    have zeros: "mem_bytes (mem ?t) p (unat k * unat n) = replicate (unat k * unat n) 0"
      using unat_bound [of "k * n"] mem_bytes_set [of "unat (k * n)" "mem u" p 0] by (simp add: mem_memset prod memset_def)
    have inv: "libc_inv heap ?t" using u(3) by (simp add: libc_inv_def memset_def)
    have block: "calloc heap k n s = (p, ?t)" using u(1,2) by (simp add: c)
    have cond: "\<not> (2 ^ 64 \<le> unat k * unat n
        \<or> 2 ^ 27 < round_up 16 (unat (heap_used s) + 16) + payload (of_nat (unat k * unat n)))"
      using False fits unfolding w by simp
    show ?thesis unfolding if_not_P [OF cond]
      by (intro exI [of _ p] exI [of _ ?t] conjI allI impI block u inv zeros frame)
  qed
qed

theorem calloc_zeroes_witness:
  "calloc 0x400000 0x100000000 0x100000000 blank_libc = (0, blank_libc)
   \<and> calloc 0x400000 0x10000 0x10000 blank_libc = (0, blank_libc)
   \<and> (\<exists>p t. calloc 0x400000 4 25 blank_libc = (p, t) \<and> p \<noteq> 0 \<and> mem_bytes (mem t) p 100 = replicate 100 0)"
proof (intro conjI)
  have r: "round_up 16 16 = 16" "payload 100 = 112" "payload 0x100000000 = 0x100000000"
    by (simp_all add: payload_def round_up_def)
  show "calloc 0x400000 0x100000000 0x100000000 blank_libc = (0, blank_libc)"
    using calloc_zeroes [OF blank_libc_inv(1), of "0x100000000" "0x100000000"] by simp
  show "calloc 0x400000 0x10000 0x10000 blank_libc = (0, blank_libc)"
    using calloc_zeroes [OF blank_libc_inv(1), of "0x10000" "0x10000"] by (simp add: r)
  have n: "unat (4 :: u64) * unat (25 :: u64) = 100" by simp
  show "\<exists>p t. calloc 0x400000 4 25 blank_libc = (p, t) \<and> p \<noteq> 0 \<and> mem_bytes (mem t) p 100 = replicate 100 0"
    using calloc_zeroes [OF blank_libc_inv(1), of 4 25, unfolded n, THEN iffD1 [OF if_bool_eq_conj]] r
    by auto
qed

text \<open>
  (safety)  The header of a block survives: whatever is allocated afterwards, the size
  recorded for a block obtained from \<open>malloc\<close> stays the same.
\<close>

theorem usable_size_stable:
  assumes "libc_inv heap s" and "unat n \<le> 2 ^ 62" and "malloc heap n s = (p, t)" and "p \<noteq> 0"
    and "\<forall>(n, al) \<in> set rs. unat n \<le> 2 ^ 62 \<and> unat al \<le> 2 ^ 62"
    and "run_allocs (heap_alloc heap) (\<lambda>r. payload (fst r)) rs t = (bs, u)"
  shows "malloc_usable_size p u = malloc_usable_size p t \<and> unat n \<le> unat (malloc_usable_size p u)"
proof -
  note res = malloc_Some [OF assms(1-4)]
  have ok: "\<forall>r \<in> set rs. request_ok r" using assms(5) by (auto simp: request_ok_def)
  have "malloc_usable_size p u = malloc_usable_size p t"
  proof (rule usable_cong)
    show "16 \<le> unat p" using res(1) by simp
    show "mem u a = mem t a" if "unat a < unat p" for a
      using that res(2) by (intro libc_heap.run_allocs_frame [OF res(4) ok assms(6)]) simp
  qed
  then show ?thesis using res(3,6) payload_bounds(1) [of n] by (simp add: unat_of_nat)
qed

theorem usable_size_stable_witness:
  "\<exists>p t. malloc 0x400000 100 blank_libc = (p, t) \<and>
     malloc_usable_size p (snd (run_allocs (heap_alloc 0x400000) (\<lambda>r. payload (fst r)) [(5, 16), (0, 4096)] t)) = 112"
proof -
  obtain p t where ps: "malloc 0x400000 100 blank_libc = (p, t)" "p \<noteq> 0" "malloc_usable_size p t = 112"
    using first_block by blast
  obtain bs u where u: "run_allocs (heap_alloc 0x400000) (\<lambda>r. payload (fst r)) [(5, 16), (0, 4096)] t = (bs, u)"
    by fastforce
  from usable_size_stable [OF blank_libc_inv(1) _ ps(1,2) _ u] have "malloc_usable_size p u = 112"
    by (simp add: ps(3))
  with ps(1) u show ?thesis by auto
qed

text \<open>
  (functional)  An aligned allocation aligns the block's offset in the heap array, not its
  address: the address is a multiple of the alignment exactly when the array itself is, and the
  array is declared with 4096-byte alignment only.
\<close>

theorem memalign_aligns_offset:
  assumes "libc_inv heap s" and "unat n \<le> 2 ^ 62" and "4 \<le> k" and "k \<le> 62"
    and "memalign heap (2 ^ k) n s = (p, t)" and "p \<noteq> 0"
  shows "2 ^ k dvd unat p - unat heap \<and> (2 ^ k dvd unat p \<longleftrightarrow> 2 ^ k dvd unat heap)"
proof -
  have "(2 ^ k :: nat) < 2 ^ 64" using assms(4) by (intro power_strict_increasing) simp_all
  moreover have "(2 ^ k :: u64) = of_nat (2 ^ k)" by simp
  moreover have "unat (of_nat (2 ^ k) :: u64) = 2 ^ k mod 2 ^ 64" unfolding unat_of_nat by simp
  ultimately have pow: "unat (2 ^ k :: u64) = 2 ^ k" by (simp only: mod_less)
  have "(2 :: nat) ^ k \<le> 2 ^ 62" using assms(4) by (intro power_increasing) simp_all
  then have ok: "request_ok (n, 2 ^ k)" using assms(2) by (simp add: request_ok_def pow)
  have al: "heap_alloc heap (n, 2 ^ k) s = Some (p, t)"
    using assms(5,6) by (simp add: heap_alloc_def memalign_def)
  note res = heap_alloc_Some [OF assms(1) ok al]
  have used: "unat (heap_used s) \<le> 2 ^ 27" using assms(1) by (simp add: libc_inv_def word_le_nat_alt)
  then have h: "unat (heap_used s + HDR_SIZE) = unat (heap_used s) + 16" by (simp add: unat_word_ariths)
  have "(2 :: nat) ^ 4 \<le> 2 ^ k" "(2 :: nat) ^ k \<le> 2 ^ 62" using assms(3,4) by (simp_all add: power_increasing del: power_numeral)
  then have "\<not> (2 ^ k :: u64) < 16" and "unat (heap_used s + HDR_SIZE) + 2 ^ k \<le> 2 ^ 64"
    using used unfolding word_less_nat_alt pow h by simp_all
  then have "block_start (2 ^ k) s = round_up (2 ^ k) (unat (heap_used s) + 16)"
    using ALIGN_round_up [of k "heap_used s + HDR_SIZE"] assms(4) h by (simp add: block_start_def)
  then have d: "2 ^ k dvd block_start (2 ^ k) s" by (simp add: round_up_props(3))
  then show ?thesis using res(1) by (simp add: dvd_add_left_iff)
qed

theorem memalign_aligns_offset_witness:
  "\<exists>p t. memalign 0x401000 8192 1 (blank_libc\<lparr>heap_used := 8192\<rparr>) = (p, t) \<and> p \<noteq> 0 \<and> \<not> 8192 dvd unat p"
proof -
  let ?s = "blank_libc\<lparr>heap_used := 8192\<rparr>"
  have inv: "libc_inv 0x401000 ?s" by (simp add: libc_inv_def heap_place_def)
  have "ALIGN (8192 + 16) 8192 = 16384" "payload 1 = 16"
    by (simp_all add: ALIGN_def payload_def round_up_def)
  then have "fst (bump_alloc 0x401000 1 8192 ?s) = 0x405000"
    using bump_alloc_eq [OF inv, of 1 8192] by (simp add: block_start_def Let_def)
  then obtain t where t: "memalign 0x401000 (2 ^ 13) 1 ?s = (0x405000, t)"
    by (cases "bump_alloc 0x401000 1 8192 ?s") (simp add: memalign_def)
  have odd: "\<not> 2 ^ 13 dvd unat (0x401000 :: ptr)" by simp
  have "\<not> 2 ^ 13 dvd unat (0x405000 :: ptr)" using memalign_aligns_offset [OF inv _ _ _ t] odd by simp
  then show ?thesis using t by (intro exI [of _ "0x405000"] exI [of _ t]) simp
qed

text \<open>
  C39 (error).  A size close to 2^64 wraps in the rounding and in the end of the block: once
  the mark has passed 8192 (and is a multiple of 16), \<open>malloc\<close> of 2^64 - 4096 bytes succeeds although the array has
  128 MB, and moves the mark back, so the next block starts below the one just returned, inside memory
  that was handed out earlier.
\<close>

theorem malloc_size_wraps:
  assumes "libc_inv heap s" and "16 dvd unat (heap_used s)" and "8192 \<le> heap_used s"
  shows "\<exists>p t. malloc heap (- 4096) s = (p, t) \<and> p = heap + heap_used s + 16
     \<and> heap_used t = heap_used s - 4080 \<and> libc_inv heap t
     \<and> fst (malloc heap 1 t) = p - 4080"
proof -
  have used: "unat (heap_used s) \<le> 2 ^ 27" "8192 \<le> unat (heap_used s)"
    using assms(1,3) by (simp_all add: libc_inv_def word_le_nat_alt)
  then have "4080 \<le> heap_used s" by (simp add: word_le_nat_alt)
  then have u: "unat (heap_used s - 4080) = unat (heap_used s) - 4080" by (simp add: unat_sub)
  have align: "ALIGN (x + HDR_SIZE) 16 = x + 16" if "unat x \<le> 2 ^ 27" "16 dvd unat x" for x
  proof -
    have h: "unat (x + HDR_SIZE) = unat x + 16" using that(1) by (simp add: unat_word_ariths)
    then have "unat (ALIGN (x + HDR_SIZE) 16) = unat (x + 16)"
      using ALIGN_16 [of "x + HDR_SIZE"] that by (simp add: round_up_dvd)
    then show ?thesis by (metis word_of_nat_unat)
  qed
  have "(16 :: nat) dvd 4080" by simp
  then have d: "16 dvd unat (heap_used s) - 4080" using assms(2) by (rule dvd_diff_nat [rotated])
  have sz: "ALIGN (- 4096) 16 = - 4096" "ALIGN 1 16 = 16" by (simp_all add: ALIGN_def)
  have small: "\<not> heap_used s - 4080 > HEAP_SIZE" "\<not> heap_used s - 4048 > HEAP_SIZE"
  proof -
    have "4048 \<le> heap_used s" using used by (simp add: word_le_nat_alt)
    then have "unat (heap_used s - 4048) = unat (heap_used s) - 4048" by (simp add: unat_sub)
    then show "\<not> heap_used s - 4080 > HEAP_SIZE" "\<not> heap_used s - 4048 > HEAP_SIZE"
      using used(1) by (simp_all add: word_less_nat_alt u)
  qed
  obtain t where t: "malloc heap (- 4096) s = (heap + (heap_used s + 16), t)" "heap_used t = heap_used s - 4080"
    using small(1) by (simp add: malloc_def bump_alloc_def Let_def align [OF used(1) assms(2)] sz)
  have inv: "libc_inv heap t" using assms(1) small(1) by (simp add: libc_inv_def t(2) not_less)
  have follow: "ALIGN (heap_used s - 4064) 16 = heap_used s - 4064"
    using align [of "heap_used s - 4080"] used(1) d u by simp
  have "fst (malloc heap 1 t) = heap + (heap_used t + 16)"
    using small(2) by (simp add: malloc_def bump_alloc_def Let_def follow sz t(2))
  then show ?thesis using t inv by (simp add: algebra_simps)
qed

theorem malloc_size_wraps_witness:
  "\<exists>t. malloc 0x400000 (- 4096) (blank_libc\<lparr>heap_used := 8192\<rparr>) = (0x402010, t)
     \<and> heap_used t = 4112 \<and> fst (malloc 0x400000 1 t) = 0x401020"
  using malloc_size_wraps [OF blank_libc_inv(2)] by auto

text \<open>
  C18 (equivalence).  The C-level \<open>mremap\<close> wrapper, which is written separately, agrees with the system
  call it replaces for every address below 2^63 and every new size up to 2^63, with tracing off and the
  mmap mark in its region: the same address and memory on success, and MAP\_FAILED with errno ENOMEM
  where the call returns a negative error number.
\<close>

theorem mremap_agrees:
  assumes "syscall_trace s = 0" and "mmap_inv s" and "unat new_size \<le> 2 ^ 63" and "unat q < 2 ^ 63"
  shows "mremap b q old new_size flags s =
     (case sys_mremap q old new_size flags' s of
        (r, t) \<Rightarrow> if r <s 0 then Ret MAP_FAILED (t\<lparr>errno := 12\<rparr>) else Ret r t)"
proof -
  have valid: "\<not> q > 0xFFFFFFFFFFFFF000" using assms(4) by (simp add: word_less_nat_alt)
  have pos: "\<not> q <s 0" using not_negative [OF assms(4)] by simp
  obtain r t where sm: "sys_mmap 0 new_size 3 0 (- 1) 0 s = (r, t)" by fastforce
  then have w: "mmap b 0 new_size 3 0x22 (- 1) 0 s = map_failed (r, t)"
    using mmap_eq [OF assms(1-3), of b 0 3 "0x22" "- 1" 0] sys_mmap_ignores [of 0 new_size 3 "0x22" "- 1" 0 s 0 0 "- 1" 0]
    by simp
  have "(- 1 :: u64) <s 0" by (simp add: word_sless_alt)
  then show ?thesis
    using valid pos by (auto simp: mremap_def sys_mremap_def w sm map_failed_def)
qed

theorem mremap_agrees_witness:
  "\<exists>p t. mremap (serial_build two_tables) 0x10000000 16 4096 1 blank_libc = Ret p t
     \<and> sys_mremap 0x10000000 16 4096 1 blank_libc = (p, t)"
proof -
  have inv: "mmap_inv blank_libc" "page_mark blank_libc = 0x10000000"
    by (simp_all add: mmap_inv_def page_mark_def round_up_dvd)
  have len: "unat (4096 :: u64) \<le> 2 ^ 63" "unat (0x10000000 :: ptr) < 2 ^ 63" by simp_all
  obtain p t where r: "sys_mremap 0x10000000 16 4096 1 blank_libc = (p, t)" by fastforce
  then have "p = 0x10000000" by (simp add: sys_mremap_def sys_mmap_eq [OF inv(1)] inv(2) word_sless_alt)
  then have "\<not> p <s 0" by (simp add: word_sless_alt)
  then show ?thesis
    using mremap_agrees [OF _ inv(1) len, of "serial_build two_tables" 16 1 1] r by simp
qed

end
