(* ===== verification/Pthread.thy ===== *)
theory Pthread
  imports Malloc
begin

text \<open>
  compat/ruby\_on\_bare\_metal\_pthread.c: the pthread functions of a machine with one thread.  The
  sizes of the opaque types are those the file declares.  Each function returns a C \<open>int\<close> and the
  state; most succeed without doing anything.
\<close>

section \<open>Model\<close>

record threads = libc +
  next_key :: u32

text \<open>Identity and creation.\<close>

definition pthread_self :: u64 where
  "pthread_self = 1"

definition pthread_equal :: "u64 \<Rightarrow> u64 \<Rightarrow> int" where
  "pthread_equal t1 t2 = (if t1 = t2 then 1 else 0)"

definition pthread_create :: "ptr \<Rightarrow> ptr \<Rightarrow> ptr \<Rightarrow> ptr \<Rightarrow> 'a threads_scheme \<Rightarrow> int \<times> 'a threads_scheme" where
  "pthread_create th attr start arg s = (38, s)"

definition pthread_join :: "ptr \<Rightarrow> ptr \<Rightarrow> 'a threads_scheme \<Rightarrow> int \<times> 'a threads_scheme" where
  "pthread_join p q s = (0, s)"

definition pthread_detach :: "ptr \<Rightarrow> 'a threads_scheme \<Rightarrow> int \<times> 'a threads_scheme" where
  "pthread_detach p s = (0, s)"

text \<open>Thread attributes; \<open>stack64_bottom\<close> is the address of the stack in entry64.S.\<close>

definition pthread_attr_init :: "ptr \<Rightarrow> 'a threads_scheme \<Rightarrow> int \<times> 'a threads_scheme" where
  "pthread_attr_init p s = (0, memset p 0 64 s)"

definition pthread_attr_destroy :: "ptr \<Rightarrow> 'a threads_scheme \<Rightarrow> int \<times> 'a threads_scheme" where
  "pthread_attr_destroy p s = (0, s)"

definition pthread_attr_setdetachstate :: "ptr \<Rightarrow> int \<Rightarrow> 'a threads_scheme \<Rightarrow> int \<times> 'a threads_scheme" where
  "pthread_attr_setdetachstate p q s = (0, s)"

definition pthread_attr_setstacksize :: "ptr \<Rightarrow> u64 \<Rightarrow> 'a threads_scheme \<Rightarrow> int \<times> 'a threads_scheme" where
  "pthread_attr_setstacksize p q s = (0, s)"

definition pthread_attr_setinheritsched :: "ptr \<Rightarrow> int \<Rightarrow> 'a threads_scheme \<Rightarrow> int \<times> 'a threads_scheme" where
  "pthread_attr_setinheritsched p q s = (0, s)"

definition pthread_attr_getstack :: "ptr \<Rightarrow> ptr \<Rightarrow> ptr \<Rightarrow> ptr \<Rightarrow> 'a threads_scheme \<Rightarrow> int \<times> 'a threads_scheme" where
  "pthread_attr_getstack stack64_bottom attr addr size_p s =
     (0, store64 size_p 1048576 (store64 addr stack64_bottom s))"

definition pthread_attr_getguardsize :: "ptr \<Rightarrow> ptr \<Rightarrow> 'a threads_scheme \<Rightarrow> int \<times> 'a threads_scheme" where
  "pthread_attr_getguardsize attr size_p s = (0, store64 size_p 4096 s)"

definition pthread_getattr_np :: "u64 \<Rightarrow> ptr \<Rightarrow> 'a threads_scheme \<Rightarrow> int \<times> 'a threads_scheme" where
  "pthread_getattr_np th attr s = (0, memset attr 0 64 s)"

text \<open>Mutexes.\<close>

definition pthread_mutex_init :: "ptr \<Rightarrow> ptr \<Rightarrow> 'a threads_scheme \<Rightarrow> int \<times> 'a threads_scheme" where
  "pthread_mutex_init p q s = (0, memset p 0 48 s)"

definition pthread_mutex_destroy :: "ptr \<Rightarrow> 'a threads_scheme \<Rightarrow> int \<times> 'a threads_scheme" where
  "pthread_mutex_destroy p s = (0, s)"

definition pthread_mutex_lock :: "ptr \<Rightarrow> 'a threads_scheme \<Rightarrow> int \<times> 'a threads_scheme" where
  "pthread_mutex_lock p s = (0, s)"

definition pthread_mutex_trylock :: "ptr \<Rightarrow> 'a threads_scheme \<Rightarrow> int \<times> 'a threads_scheme" where
  "pthread_mutex_trylock p s = (0, s)"

definition pthread_mutex_unlock :: "ptr \<Rightarrow> 'a threads_scheme \<Rightarrow> int \<times> 'a threads_scheme" where
  "pthread_mutex_unlock p s = (0, s)"

definition pthread_mutexattr_init :: "ptr \<Rightarrow> 'a threads_scheme \<Rightarrow> int \<times> 'a threads_scheme" where
  "pthread_mutexattr_init p s = (0, memset p 0 8 s)"

definition pthread_mutexattr_destroy :: "ptr \<Rightarrow> 'a threads_scheme \<Rightarrow> int \<times> 'a threads_scheme" where
  "pthread_mutexattr_destroy p s = (0, s)"

definition pthread_mutexattr_settype :: "ptr \<Rightarrow> int \<Rightarrow> 'a threads_scheme \<Rightarrow> int \<times> 'a threads_scheme" where
  "pthread_mutexattr_settype p q s = (0, s)"

text \<open>Condition variables.\<close>

definition pthread_cond_init :: "ptr \<Rightarrow> ptr \<Rightarrow> 'a threads_scheme \<Rightarrow> int \<times> 'a threads_scheme" where
  "pthread_cond_init p q s = (0, memset p 0 48 s)"

definition pthread_cond_destroy :: "ptr \<Rightarrow> 'a threads_scheme \<Rightarrow> int \<times> 'a threads_scheme" where
  "pthread_cond_destroy p s = (0, s)"

definition pthread_cond_wait :: "ptr \<Rightarrow> ptr \<Rightarrow> 'a threads_scheme \<Rightarrow> int \<times> 'a threads_scheme" where
  "pthread_cond_wait p q s = (0, s)"

definition pthread_cond_timedwait :: "ptr \<Rightarrow> ptr \<Rightarrow> ptr \<Rightarrow> 'a threads_scheme \<Rightarrow> int \<times> 'a threads_scheme" where
  "pthread_cond_timedwait p q r s = (0, s)"

definition pthread_cond_signal :: "ptr \<Rightarrow> 'a threads_scheme \<Rightarrow> int \<times> 'a threads_scheme" where
  "pthread_cond_signal p s = (0, s)"

definition pthread_cond_broadcast :: "ptr \<Rightarrow> 'a threads_scheme \<Rightarrow> int \<times> 'a threads_scheme" where
  "pthread_cond_broadcast p s = (0, s)"

definition pthread_condattr_init :: "ptr \<Rightarrow> 'a threads_scheme \<Rightarrow> int \<times> 'a threads_scheme" where
  "pthread_condattr_init p s = (0, memset p 0 8 s)"

definition pthread_condattr_destroy :: "ptr \<Rightarrow> 'a threads_scheme \<Rightarrow> int \<times> 'a threads_scheme" where
  "pthread_condattr_destroy p s = (0, s)"

definition pthread_condattr_setclock :: "ptr \<Rightarrow> int \<Rightarrow> 'a threads_scheme \<Rightarrow> int \<times> 'a threads_scheme" where
  "pthread_condattr_setclock p q s = (0, s)"

text \<open>Read-write locks.\<close>

definition pthread_rwlock_init :: "ptr \<Rightarrow> ptr \<Rightarrow> 'a threads_scheme \<Rightarrow> int \<times> 'a threads_scheme" where
  "pthread_rwlock_init p q s = (0, memset p 0 56 s)"

definition pthread_rwlock_destroy :: "ptr \<Rightarrow> 'a threads_scheme \<Rightarrow> int \<times> 'a threads_scheme" where
  "pthread_rwlock_destroy p s = (0, s)"

definition pthread_rwlock_rdlock :: "ptr \<Rightarrow> 'a threads_scheme \<Rightarrow> int \<times> 'a threads_scheme" where
  "pthread_rwlock_rdlock p s = (0, s)"

definition pthread_rwlock_wrlock :: "ptr \<Rightarrow> 'a threads_scheme \<Rightarrow> int \<times> 'a threads_scheme" where
  "pthread_rwlock_wrlock p s = (0, s)"

definition pthread_rwlock_unlock :: "ptr \<Rightarrow> 'a threads_scheme \<Rightarrow> int \<times> 'a threads_scheme" where
  "pthread_rwlock_unlock p s = (0, s)"

text \<open>Signals, names, fork handlers, thread-specific data.\<close>

definition pthread_sigmask :: "int \<Rightarrow> ptr \<Rightarrow> ptr \<Rightarrow> 'a threads_scheme \<Rightarrow> int \<times> 'a threads_scheme" where
  "pthread_sigmask p q r s = (0, s)"

definition pthread_kill :: "u64 \<Rightarrow> int \<Rightarrow> 'a threads_scheme \<Rightarrow> int \<times> 'a threads_scheme" where
  "pthread_kill p q s = (0, s)"

definition pthread_setname_np :: "u64 \<Rightarrow> ptr \<Rightarrow> 'a threads_scheme \<Rightarrow> int \<times> 'a threads_scheme" where
  "pthread_setname_np p q s = (0, s)"

definition pthread_atfork :: "ptr \<Rightarrow> ptr \<Rightarrow> ptr \<Rightarrow> 'a threads_scheme \<Rightarrow> int \<times> 'a threads_scheme" where
  "pthread_atfork p q r s = (0, s)"

definition pthread_key_create :: "ptr \<Rightarrow> ptr \<Rightarrow> 'a threads_scheme \<Rightarrow> int \<times> 'a threads_scheme" where
  "pthread_key_create key dtor s = (0, (store32 key (next_key s) s)\<lparr>next_key := next_key s + 1\<rparr>)"

definition pthread_setspecific :: "u32 \<Rightarrow> ptr \<Rightarrow> 'a threads_scheme \<Rightarrow> int \<times> 'a threads_scheme" where
  "pthread_setspecific p q s = (0, s)"

definition pthread_getspecific :: "u32 \<Rightarrow> 'a threads_scheme \<Rightarrow> ptr" where
  "pthread_getspecific key s = 0"

text \<open>Cancellation; \<open>call f x\<close> in the last function is the cleanup handler's effect.\<close>

definition pthread_setcancelstate :: "int \<Rightarrow> ptr \<Rightarrow> 'a threads_scheme \<Rightarrow> int \<times> 'a threads_scheme" where
  "pthread_setcancelstate st oldstate s = (0, if oldstate \<noteq> 0 then store32 oldstate (0 :: u32) s else s)"

definition pthread_setcanceltype :: "int \<Rightarrow> ptr \<Rightarrow> 'a threads_scheme \<Rightarrow> int \<times> 'a threads_scheme" where
  "pthread_setcanceltype ty oldtype s = (0, if oldtype \<noteq> 0 then store32 oldtype (0 :: u32) s else s)"

definition pthread_testcancel :: "'a threads_scheme \<Rightarrow> 'a threads_scheme" where
  "pthread_testcancel s = s"

definition internal_setcancelstate :: "int \<Rightarrow> ptr \<Rightarrow> 'a threads_scheme \<Rightarrow> int \<times> 'a threads_scheme" where
  "internal_setcancelstate = pthread_setcancelstate"

definition pthread_cleanup_push :: "ptr \<Rightarrow> ptr \<Rightarrow> ptr \<Rightarrow> 'a threads_scheme \<Rightarrow> 'a threads_scheme" where
  "pthread_cleanup_push cb f x s = s"

definition pthread_cleanup_pop ::
  "(ptr \<Rightarrow> ptr \<Rightarrow> 'a threads_scheme \<Rightarrow> 'a threads_scheme) \<Rightarrow> ptr \<Rightarrow> int \<Rightarrow> 'a threads_scheme \<Rightarrow> 'a threads_scheme" where
  "pthread_cleanup_pop call cb run s =
     (if run \<noteq> 0 \<and> cb \<noteq> 0 \<and> (load64 cb s :: u64) \<noteq> 0 then call (load64 cb s) (load64 (cb + 8) s) s else s)"

section \<open>Properties\<close>

text \<open>Creating keys one after the other, each read back from where it was stored.\<close>

fun create_keys :: "ptr list \<Rightarrow> 'a threads_scheme \<Rightarrow> u32 list \<times> 'a threads_scheme" where
  "create_keys [] s = ([], s)"
| "create_keys (p # ps) s =
     (case pthread_key_create p 0 s of (r, t) \<Rightarrow>
        case create_keys ps t of (ks, u) \<Rightarrow> (load32 p t # ks, u))"

lemma create_keys_eq: "fst (create_keys ps s) = map (\<lambda>i. next_key s + of_nat i) [0..<length ps]"
proof (induction ps arbitrary: s)
  case (Cons p ps)
  define t where "t = (store32 p (next_key s) s)\<lparr>next_key := next_key s + 1\<rparr>"
  have "load32 p t = next_key s"
    using load_store_widths(2) [of p "next_key s" s] by (simp add: t_def load_def)
  moreover have "fst (create_keys ps t) = map (\<lambda>i. next_key s + of_nat (Suc i)) [0..<length ps]"
    by (simp add: Cons.IH t_def add.assoc)
  ultimately show ?case
    by (simp add: pthread_key_create_def t_def [symmetric] case_prod_beta map_upt_Suc del: upt_Suc)
qed simp

text \<open>
  (functional)  Keys for thread-specific data are never handed out twice: up to 2^32 keys
  created in sequence are pairwise different, wherever they are stored and whatever is in memory.
\<close>

theorem created_keys_distinct:
  assumes "length ps \<le> 2 ^ 32"
  shows "distinct (fst (create_keys ps s)) \<and> length (fst (create_keys ps s)) = length ps"
proof -
  have "inj_on (\<lambda>i. next_key s + of_nat i :: u32) {0..<length ps}"
  proof (rule inj_onI)
    fix i j assume i: "i \<in> {0..<length ps}" and j: "j \<in> {0..<length ps}"
      and "next_key s + of_nat i = (next_key s + of_nat j :: u32)"
    then have "unat (of_nat i :: u32) = unat (of_nat j :: u32)" by simp
    then show "i = j" using i j assms by (simp add: unat_of_nat)
  qed
  then show ?thesis by (simp add: create_keys_eq distinct_map)
qed

definition blank_threads :: threads where
  "blank_threads = libc.extend blank_libc \<lparr>next_key = 1\<rparr>"

theorem created_keys_distinct_witness:
  "distinct (fst (create_keys [0x700000, 0x700000, 0x700004] blank_threads))
   \<and> fst (create_keys [0x700000, 0x700000, 0x700004] blank_threads) = [1, 2, 3]"
proof
  show "distinct (fst (create_keys [0x700000, 0x700000, 0x700004] blank_threads))"
    using created_keys_distinct [of "[0x700000, 0x700000, 0x700004]" blank_threads] by simp
  show "fst (create_keys [0x700000, 0x700000, 0x700004] blank_threads) = [1, 2, 3]"
    unfolding create_keys_eq by (simp add: blank_threads_def libc.defs upt_rec)
qed

text \<open>
  (error)  \<open>_pthread_cleanup_push\<close> does not store the handler it is given, so a later
  \<open>_pthread_cleanup_pop\<close> that is asked to run it calls whatever address the caller's
  uninitialised record happens to hold: another function than the one that was pushed.
\<close>

theorem cleanup_handler_lost:
  assumes "cb \<noteq> 0" and "(load64 cb s :: u64) = g" and "g \<noteq> 0" and "f \<noteq> g" and "run \<noteq> 0"
  shows "pthread_cleanup_pop call cb run (pthread_cleanup_push cb f x s) = call g (load64 (cb + 8) s) s"
  using assms by (simp add: pthread_cleanup_pop_def pthread_cleanup_push_def)

theorem cleanup_handler_lost_witness:
  "evs (pthread_cleanup_pop (\<lambda>f x s. s\<lparr>evs := evs s @ [CRuby (if f = 0x1234 then ''pushed handler'' else ''other'')]\<rparr>) 0x700000 1
      (pthread_cleanup_push 0x700000 0x1234 7 (store64 0x700000 (0xDEAD :: u64) blank_threads))) = [CRuby ''other'']"
proof -
  let ?s = "store64 0x700000 (0xDEAD :: u64) blank_threads"
  have "(load64 0x700000 ?s :: u64) = 0xDEAD" by (rule load_store_widths(3))
  moreover have "evs ?s = []"
    by (simp add: store_def blank_threads_def libc.defs blank_libc_def sys.defs demo_sys_def blank_sys_def uefi.defs
          blank_uefi_def blank_hw_def hw.defs)
  ultimately show ?thesis
    using cleanup_handler_lost [of "0x700000" ?s "0xDEAD" "0x1234" 1
        "\<lambda>f x s. s\<lparr>evs := evs s @ [CRuby (if f = 0x1234 then ''pushed handler'' else ''other'')]\<rparr>" 7]
    by simp
qed

end
