(* ===== verification/Shim.thy ===== *)
theory Shim
  imports Console
begin

text \<open>
  boot/uefi/shim.c: the UEFI application that allocates pages for the kernel image, copies it
  there and jumps to it.  The firmware's \<open>AllocatePages\<close> and the kernel that is entered are
  parameters: the first gives a status and an address, the second may or may not return.  As the
  code does, the model takes it that the system table has a text output.
\<close>

section \<open>Model\<close>

abbreviation KERNEL_LOAD_ADDR :: u64 where "KERNEL_LOAD_ADDR \<equiv> 0x200000"

text \<open>
  The copy loop of \<open>utf16_from_ascii\<close>: index, remaining characters, text so far.  The NUL at the
  end of \<open>src\<close> is the end of the list.
\<close>

fun utf16_loop :: "nat \<Rightarrow> bytes \<Rightarrow> u16 list \<Rightarrow> nat \<Rightarrow> u16 list" where
  "utf16_loop i [] dst m = dst"
| "utf16_loop i (c # src) dst m =
     (if c \<noteq> 0 \<and> i + 1 < m then utf16_loop (i + 1) src (dst @ [scast c]) m else dst)"

definition utf16_from_ascii :: "bytes \<Rightarrow> nat \<Rightarrow> u16 list" where
  "utf16_from_ascii src m = utf16_loop 0 src [] m"

text \<open>\<open>buf\<close> has 128 elements; the two characters and the NUL written after the text must fit.\<close>

definition println :: "bytes \<Rightarrow> 'a uefi_scheme \<Rightarrow> (unit, 'a uefi_scheme) outcome" where
  "println msg s =
     (let buf = utf16_from_ascii msg 126
      in if length buf + 2 < 128 then Ret () (emit (OutputString (buf @ [13, 10])) s) else Stop Undefined s)"

primrec copy_loop :: "ptr \<Rightarrow> ptr \<Rightarrow> nat list \<Rightarrow> 'a hw_scheme \<Rightarrow> 'a hw_scheme" where
  "copy_loop dst src [] s = s"
| "copy_loop dst src (i # is) s =
     copy_loop dst src is (store8 (dst + of_nat i) (mem s (src + of_nat i)) s)"

definition jump_to_kernel ::
  "(ptr \<Rightarrow> 'a uefi_scheme \<Rightarrow> (unit, 'a uefi_scheme) outcome) \<Rightarrow> ptr \<Rightarrow> ptr \<Rightarrow> ptr \<Rightarrow> 'a uefi_scheme \<Rightarrow> (u64, 'a uefi_scheme) outcome" where
  "jump_to_kernel entry addr image_start image_end s =
     (let s1 = copy_loop addr image_start [0..<unat (image_end - image_start)] s
      in andThen (println (ascii ''jumping to kernel...'') s1) (\<lambda>_ s2.
         andThen (entry addr s2) (\<lambda>_ s3. Stop Halted s3)))"

definition efi_main ::
  "(EFI_ALLOCATE_TYPE \<Rightarrow> EFI_MEMORY_TYPE \<Rightarrow> u64 \<Rightarrow> u64 \<Rightarrow> 'a uefi_scheme \<Rightarrow> u64 \<times> u64 \<times> 'a uefi_scheme)
     \<Rightarrow> (ptr \<Rightarrow> 'a uefi_scheme \<Rightarrow> (unit, 'a uefi_scheme) outcome) \<Rightarrow> ptr \<Rightarrow> ptr \<Rightarrow> 'a uefi_scheme \<Rightarrow> (u64, 'a uefi_scheme) outcome" where
  "efi_main AllocatePages entry image_start image_end s =
     andThen (println (ascii ''Ruby on Bare Metal - UEFI shim'') (emit ClearScreen s)) (\<lambda>_ s1.
     andThen (println (ascii ''allocating pages at 0x200000...'') s1) (\<lambda>_ s2.
       let kernel_size = image_end - image_start;
           pages = (kernel_size + 0xFFF) div 0x1000
       in case AllocatePages AllocateAddress EfiLoaderData pages KERNEL_LOAD_ADDR s2 of
            (status, addr, s3) \<Rightarrow>
              if status = 0 then jump_to_kernel entry addr image_start image_end s3
              else andThen (println (ascii ''AllocatePages failed, retrying AnyPages...'') s3) (\<lambda>_ s4.
                case AllocatePages AllocateAnyPages EfiLoaderData pages addr s4 of
                  (status', addr', s5) \<Rightarrow>
                    if status' = 0 then jump_to_kernel entry addr' image_start image_end s5
                    else andThen (println (ascii ''fatal: cannot allocate kernel memory'') s5) (\<lambda>_ s6. Ret status' s6))))"

section \<open>Lemmas\<close>

lemma utf16_loop_eq:
  assumes "i \<le> m - 1" and "0 \<notin> set src"
  shows "utf16_loop i src dst m = dst @ map scast (take (m - 1 - i) src)"
  using assms
proof (induction i src dst m rule: utf16_loop.induct)
  case (2 i c src dst m)
  show ?case
  proof (cases "i + 1 < m")
    case True
    then have "m - 1 - i = Suc (m - 1 - (i + 1))" by simp
    with 2 True show ?thesis by simp
  next
    case False
    with 2 show ?thesis by (cases "m - 1 - i") auto
  qed
qed simp

text \<open>Any message, however long, is printed within the buffer.\<close>

lemma utf16_length: "length (utf16_loop i src dst m) \<le> max (length dst) (length dst + (m - 1 - i))"
  by (induction i src dst m rule: utf16_loop.induct) auto

lemma println_eq:
  assumes "0 \<notin> set msg"
  shows "println msg s = Ret () (emit (OutputString (map scast (take 125 msg) @ [13, 10])) s)"
  using utf16_loop_eq [of 0 126 msg "[]"] assms by (simp add: println_def utf16_from_ascii_def Let_def)

lemma println_returns: "\<exists>t. println msg s = Ret () t \<and> mem t = mem s"
  using utf16_length [of 0 msg "[]" 126] by (simp add: println_def utf16_from_ascii_def Let_def)

text \<open>The copy loop over a range that does not overlap its source is a block copy.\<close>

lemma copy_loop_upto:
  assumes "k \<le> n" and "n < 2 ^ 64" and "\<And>a. in_region src n a \<Longrightarrow> \<not> in_region dst n a"
  shows "copy_loop dst src [0..<k] s = s\<lparr>mem := mem_copy (mem s) dst src k\<rparr>"
  using assms(1)
proof (induction k)
  case 0
  show ?case by (simp add: mem_copy_def)
next
  case (Suc k)
  have snoc: "copy_loop dst src (is @ [i]) s = store8 (dst + of_nat i) (mem (copy_loop dst src is s) (src + of_nat i)) (copy_loop dst src is s)" for "is" i and s :: "'a hw_scheme"
    by (induction "is" arbitrary: s) simp_all
  have "in_region src n (src + of_nat k)" using Suc.prems assms(2) by (intro in_region_offset) simp_all
  then have "\<not> in_region dst n (src + of_nat k)" by (rule assms(3))
  then have "\<not> in_region dst k (src + of_nat k)"
    using Suc.prems by (simp add: in_region_def)
  then have src: "mem_copy (mem s) dst src k (src + of_nat k) = mem s (src + of_nat k)" by (rule mem_frames(3))
  have IH: "copy_loop dst src [0..<k] s = s\<lparr>mem := mem_copy (mem s) dst src k\<rparr>" using Suc by simp
  have "mem_put (mem_copy (mem s) dst src k) (dst + of_nat k) [mem s (src + of_nat k)] = mem_copy (mem s) dst src (Suc k)"
  proof
    fix a
    have k: "k < 2 ^ 64" using Suc.prems assms(2) by simp
    have ak: "dst + of_nat (unat (a - dst)) = a" by simp
    show "mem_put (mem_copy (mem s) dst src k) (dst + of_nat k) [mem s (src + of_nat k)] a = mem_copy (mem s) dst src (Suc k) a"
    proof (cases "a = dst + of_nat k")
      case True
      then have "unat (a - dst) = k" using k by (simp add: unat_of_nat)
      then show ?thesis unfolding mem_put_def mem_copy_def True by simp
    next
      case False
      then have "unat (a - dst) \<noteq> k" using ak by auto
      moreover have "unat (a - (dst + of_nat k)) \<noteq> 0" using False by (simp add: unat_eq_0)
      ultimately show ?thesis by (simp add: mem_put_def mem_copy_def less_Suc_eq)
    qed
  qed
  then show ?case
    by (simp add: snoc IH src store_def)
qed

text \<open>Loading the image at an address: what memory holds when the kernel is entered.\<close>

definition loaded :: "ptr \<Rightarrow> ptr \<Rightarrow> nat \<Rightarrow> 'a uefi_scheme \<Rightarrow> 'a uefi_scheme \<Rightarrow> bool" where
  "loaded addr img n s t \<longleftrightarrow> mem_bytes (mem t) addr n = mem_bytes (mem s) img n
     \<and> (\<forall>a. \<not> in_region addr n a \<longrightarrow> mem t a = mem s a)"

definition image_clear :: "ptr \<Rightarrow> ptr \<Rightarrow> ptr \<Rightarrow> bool" where
  "image_clear addr img img_end \<longleftrightarrow> img \<le> img_end
     \<and> (\<forall>a. in_region img (unat (img_end - img)) a \<longrightarrow> \<not> in_region addr (unat (img_end - img)) a)"

lemma jump_to_kernel_eq:
  assumes "image_clear addr img img_end"
  shows "\<exists>t. jump_to_kernel entry addr img img_end s = andThen (entry addr t) (\<lambda>_ s. Stop Halted s)
     \<and> loaded addr img (unat (img_end - img)) s t"
proof -
  let ?n = "unat (img_end - img)"
  have n: "?n < 2 ^ 64" using unat_bound [of "img_end - img"] by simp
  have copy: "copy_loop addr img [0..<?n] s = s\<lparr>mem := mem_copy (mem s) addr img ?n\<rparr>"
    using assms n by (intro copy_loop_upto) (auto simp: image_clear_def)
  obtain t where t: "println (ascii ''jumping to kernel...'') (copy_loop addr img [0..<?n] s) = Ret () t"
      "mem t = mem (copy_loop addr img [0..<?n] s)"
    using println_returns by blast
  have "loaded addr img ?n s t"
    using n by (simp add: loaded_def t(2) copy mem_bytes_copy mem_frames)
  then show ?thesis using t(1) by (auto simp: jump_to_kernel_def Let_def)
qed

lemma loaded_same: "loaded addr img n s t \<Longrightarrow> mem s = mem s' \<Longrightarrow> loaded addr img n s' t"
  by (simp add: loaded_def)

definition page_count :: "ptr \<Rightarrow> ptr \<Rightarrow> u64" where
  "page_count img img_end = (img_end - img + 0xFFF) div 0x1000"

lemma page_count_covers:
  assumes "unat (img_end - img) < 2 ^ 63"
  shows "unat (img_end - img) \<le> unat (page_count img img_end) * 4096"
    and "unat (page_count img img_end) * 4096 < unat (img_end - img) + 4096"
proof -
  have "unat (img_end - img + 0xFFF) = unat (img_end - img) + 0xFFF"
    using assms by (simp add: unat_word_ariths)
  then have c: "unat (page_count img img_end) = (unat (img_end - img) + 0xFFF) div 0x1000"
    by (simp add: page_count_def unat_div_distrib)
  show "unat (img_end - img) \<le> unat (page_count img img_end) * 4096"
    "unat (page_count img img_end) * 4096 < unat (img_end - img) + 4096"
    unfolding c by simp_all
qed

text \<open>The two ways the shim goes, whatever the kernel it would enter.\<close>

lemma efi_main_cases:
  obtains (jump) a u where "\<And>entry. efi_main alloc entry img img_end s = jump_to_kernel entry a img img_end u"
  | (refused) status a a' u v w where "alloc AllocateAnyPages EfiLoaderData (page_count img img_end) a u = (status, a', v)"
      and "status \<noteq> 0" and "\<And>entry. efi_main alloc entry img img_end s = Ret status w"
proof -
  obtain s1 where s1: "println (ascii ''Ruby on Bare Metal - UEFI shim'') (emit ClearScreen s) = Ret () s1"
    using println_returns by blast
  obtain s2 where s2: "println (ascii ''allocating pages at 0x200000...'') s1 = Ret () s2"
    using println_returns by blast
  note start = efi_main_def [of alloc _ img img_end s, unfolded s1(1) andThen.simps s2(1) Let_def page_count_def [symmetric]]
  obtain e a s3 where a: "alloc AllocateAddress EfiLoaderData (page_count img img_end) KERNEL_LOAD_ADDR s2 = (e, a, s3)"
    by (rule prod_cases3)
  obtain s4 where s4: "println (ascii ''AllocatePages failed, retrying AnyPages...'') s3 = Ret () s4"
    using println_returns by blast
  obtain e' a' s5 where a': "alloc AllocateAnyPages EfiLoaderData (page_count img img_end) a s4 = (e', a', s5)"
    by (rule prod_cases3)
  obtain s6 where s6: "println (ascii ''fatal: cannot allocate kernel memory'') s5 = Ret () s6"
    using println_returns by blast
  show thesis
  proof (cases "e = 0")
    case True
    then show ?thesis by (intro jump) (simp add: start a del: ascii_simps)
  next
    case False
    show ?thesis
    proof (cases "e' = 0")
      case True
      with False show ?thesis by (intro jump) (simp add: start a s4 a' del: ascii_simps)
    next
      case e': False
      with False show ?thesis by (intro refused [OF a']) (simp_all add: start a s4 a' s6 del: ascii_simps)
    qed
  qed
qed

text \<open>When both allocations fail the firmware's status is returned and memory is unchanged.\<close>

lemma efi_main_refused:
  assumes "\<forall>ty mty a t. \<exists>a' u. alloc ty mty (page_count img img_end) a t = (e, a', u) \<and> mem u = mem t" and "e \<noteq> 0"
  shows "\<exists>t. (\<forall>entry. efi_main alloc entry img img_end s = Ret e t) \<and> mem t = mem s"
proof -
  obtain s1 where s1: "println (ascii ''Ruby on Bare Metal - UEFI shim'') (emit ClearScreen s) = Ret () s1" "mem s1 = mem s"
    using println_returns [of _ "emit ClearScreen s"] by auto
  obtain s2 where s2: "println (ascii ''allocating pages at 0x200000...'') s1 = Ret () s2" "mem s2 = mem s"
    using println_returns s1(2) by metis
  obtain a u where u: "alloc AllocateAddress EfiLoaderData (page_count img img_end) KERNEL_LOAD_ADDR s2 = (e, a, u)" "mem u = mem s2"
    using assms(1) by blast
  obtain v where v: "println (ascii ''AllocatePages failed, retrying AnyPages...'') u = Ret () v" "mem v = mem u"
    using println_returns by blast
  obtain a' w where w: "alloc AllocateAnyPages EfiLoaderData (page_count img img_end) a v = (e, a', w)" "mem w = mem v"
    using assms(1) by blast
  obtain x where x: "println (ascii ''fatal: cannot allocate kernel memory'') w = Ret () x" "mem x = mem w"
    using println_returns by blast
  have "efi_main alloc entry img img_end s = Ret e x" for entry
    using assms(2) by (simp add: efi_main_def s1(1) s2(1) page_count_def [symmetric] u v(1) w(1) x(1) del: ascii_simps)
  then show ?thesis using s2(2) u(2) v(2) w(2) x(2) by auto
qed

section \<open>Properties\<close>

text \<open>
  C13 (functional).  When the firmware grants pages, at 0x200000 or, on the second try, anywhere, clear of the image
  and without changing memory itself, the shim enters the kernel at the granted address with the whole
  image (shorter than 2^63 bytes) copied there byte for byte and no other memory changed; the
  pages asked for cover the image and less than a page more.
\<close>

theorem efi_main_loads:
  assumes "unat (img_end - img) < 2 ^ 63" and "image_clear addr img img_end"
    and "(\<forall>t. \<exists>u. alloc AllocateAddress EfiLoaderData (page_count img img_end) KERNEL_LOAD_ADDR t = (0, addr, u) \<and> mem u = mem t)
      \<or> (\<forall>t. \<exists>u e a. alloc AllocateAddress EfiLoaderData (page_count img img_end) KERNEL_LOAD_ADDR t = (e, a, u) \<and> e \<noteq> 0 \<and> mem u = mem t)
        \<and> (\<forall>t a. \<exists>u. alloc AllocateAnyPages EfiLoaderData (page_count img img_end) a t = (0, addr, u) \<and> mem u = mem t)"
  shows "\<exists>t. efi_main alloc entry img img_end s = andThen (entry addr t) (\<lambda>_ s. Stop Halted s)
     \<and> loaded addr img (unat (img_end - img)) s t
     \<and> unat (img_end - img) \<le> unat (page_count img img_end) * 4096
     \<and> unat (page_count img img_end) * 4096 < unat (img_end - img) + 4096"
proof -
  obtain s1 where s1: "println (ascii ''Ruby on Bare Metal - UEFI shim'') (emit ClearScreen s) = Ret () s1" "mem s1 = mem s"
    using println_returns [of _ "emit ClearScreen s"] by auto
  obtain s2 where s2: "println (ascii ''allocating pages at 0x200000...'') s1 = Ret () s2" "mem s2 = mem s"
    using println_returns s1(2) by metis
  note start = efi_main_def [of alloc entry img img_end s, unfolded s1(1) andThen.simps s2(1) Let_def page_count_def [symmetric]]
  have fin: "\<exists>t. jump_to_kernel entry addr img img_end u = andThen (entry addr t) (\<lambda>_ s. Stop Halted s)
      \<and> loaded addr img (unat (img_end - img)) s t" if "mem u = mem s" for u
    using jump_to_kernel_eq [OF assms(2), of entry u] loaded_same that by metis
  have "\<exists>u. efi_main alloc entry img img_end s = jump_to_kernel entry addr img img_end u \<and> mem u = mem s"
    using assms(3)
  proof
    assume "\<forall>t. \<exists>u. alloc AllocateAddress EfiLoaderData (page_count img img_end) KERNEL_LOAD_ADDR t = (0, addr, u) \<and> mem u = mem t"
    then obtain u where "alloc AllocateAddress EfiLoaderData (page_count img img_end) KERNEL_LOAD_ADDR s2 = (0, addr, u)" "mem u = mem s2" by blast
    then show ?thesis using s2(2) by (auto simp: start)
  next
    assume r: "(\<forall>t. \<exists>u e a. alloc AllocateAddress EfiLoaderData (page_count img img_end) KERNEL_LOAD_ADDR t = (e, a, u) \<and> e \<noteq> 0 \<and> mem u = mem t)
        \<and> (\<forall>t a. \<exists>u. alloc AllocateAnyPages EfiLoaderData (page_count img img_end) a t = (0, addr, u) \<and> mem u = mem t)"
    then obtain u e a where u: "alloc AllocateAddress EfiLoaderData (page_count img img_end) KERNEL_LOAD_ADDR s2 = (e, a, u)" "e \<noteq> 0" "mem u = mem s2"
      by blast
    obtain v where v: "println (ascii ''AllocatePages failed, retrying AnyPages...'') u = Ret () v" "mem v = mem u"
      using println_returns by blast
    obtain w where "alloc AllocateAnyPages EfiLoaderData (page_count img img_end) a v = (0, addr, w)" "mem w = mem v"
      using r by blast
    then show ?thesis using s2(2) u v by (auto simp: start)
  qed
  then show ?thesis using fin page_count_covers [OF assms(1)] by metis
qed

definition grant_at :: "ptr \<Rightarrow> EFI_ALLOCATE_TYPE \<Rightarrow> EFI_MEMORY_TYPE \<Rightarrow> u64 \<Rightarrow> u64 \<Rightarrow> uefi \<Rightarrow> u64 \<times> u64 \<times> uefi" where
  "grant_at addr ty mty pages a t = (if ty = AllocateAnyPages then (0, addr, t) else (0x800000000000000E, a, t))"

theorem efi_main_loads_witness:
  "\<exists>t. efi_main (grant_at 0x700000) (\<lambda>addr s. Ret () (emit (CRuby ''entered'') s)) 0x1000 0x1003 (blank_uefi\<lparr>mem := mem_put (\<lambda>_. 0) 0x1000 [1, 2, 3]\<rparr>)
       = Stop Halted (emit (CRuby ''entered'') t) \<and> mem_bytes (mem t) 0x700000 3 = [1, 2, 3]"
proof -
  let ?s = "blank_uefi\<lparr>mem := mem_put (\<lambda>_. 0) 0x1000 [1, 2, 3]\<rparr>"
  have clear: "image_clear 0x700000 0x1000 0x1003" by (auto simp: image_clear_def in_region_iff)
  have bytes: "mem_bytes (mem ?s) 0x1000 3 = [1, 2, 3]"
    using mem_bytes_put [of "[1, 2, 3]" "\<lambda>_. 0" "0x1000"] by (simp add: numeral_3_eq_3)
  have n: "unat (0x1003 - 0x1000 :: u64) = 3" by simp
  show ?thesis
    using efi_main_loads [OF _ clear, of "grant_at 0x700000" "\<lambda>addr s. Ret () (emit (CRuby ''entered'') s)" ?s]
    unfolding n loaded_def bytes by (auto simp: grant_at_def)
qed

end
