(* ===== verification/Boot.thy ===== *)
theory Boot
  imports Pthread Shim
begin

text \<open>
  kernel/kernel\_main.c, compat/ruby\_on\_bare\_metal\_compat.c and compat/ruby\_on\_bare\_metal\_enc.c:
  the order in which the kernel brings its parts up, and the run of the entry script.  CRuby's
  functions are not part of the repository: they are the fields of a record the boot code is
  given, and each may fail to return.  The addresses the linker and the compiler choose (the TLS
  block, the stack anchor) are parameters.
\<close>

section \<open>CRuby's interface\<close>

text \<open>
  \<open>rb_eval_string_protect\<close> returns the value it stores to \<open>*pstate\<close>;
  \<open>rb_string_value_cstr\<close> returns the string, or \<open>None\<close> for NULL.
\<close>

record 's cruby =
  ruby_init_stack :: "ptr \<Rightarrow> 's \<Rightarrow> (unit, 's) outcome"
  ruby_setup :: "'s \<Rightarrow> (int, 's) outcome"
  rb_call_builtin_inits :: "'s \<Rightarrow> (unit, 's) outcome"
  ruby_script :: "bytes \<Rightarrow> 's \<Rightarrow> (unit, 's) outcome"
  rb_eval_string_protect :: "ptr \<Rightarrow> 's \<Rightarrow> (int, 's) outcome"
  rb_errinfo :: "'s \<Rightarrow> (u64, 's) outcome"
  rb_intern :: "bytes \<Rightarrow> 's \<Rightarrow> (u64, 's) outcome"
  rb_funcall :: "u64 \<Rightarrow> u64 \<Rightarrow> 's \<Rightarrow> (u64, 's) outcome"
  rb_string_value_cstr :: "u64 \<Rightarrow> 's \<Rightarrow> (bytes option, 's) outcome"
  rb_encdb_declare :: "bytes \<Rightarrow> 's \<Rightarrow> (unit, 's) outcome"
  rb_encdb_alias :: "bytes \<Rightarrow> bytes \<Rightarrow> 's \<Rightarrow> (int, 's) outcome"

section \<open>The CRuby run\<close>

definition ruby_on_bare_metal_console_write :: "'a sys_scheme build \<Rightarrow> ptr \<Rightarrow> u64 \<Rightarrow> 'a sys_scheme \<Rightarrow> (unit, 'a sys_scheme) outcome" where
  "ruby_on_bare_metal_console_write b buf len s = c_write (b_con b) buf len s"

definition entry_script :: "bool \<Rightarrow> bytes" where
  "entry_script for_uefi = (if for_uefi then ascii ''/autodemo.rb'' else ascii ''/init.rb'')"

text \<open>The branch taken when the evaluation ended with an exception.\<close>

definition report_exception :: "'a sys_scheme build \<Rightarrow> 'a sys_scheme cruby \<Rightarrow> 'a sys_scheme \<Rightarrow> (unit, 'a sys_scheme) outcome" where
  "report_exception b rb s =
     andThen (c_puts (b_con b) (ascii ''ruby exception:'' @ [10]) s) (\<lambda>_ s1.
     andThen (rb_errinfo rb s1) (\<lambda>err s2.
       if err = 0 then Ret () s2
       else andThen (rb_intern rb (ascii ''message'') s2) (\<lambda>mid s3.
            andThen (rb_funcall rb err mid s3) (\<lambda>msg s4.
            andThen (rb_string_value_cstr rb msg s4) (\<lambda>str s5.
              case str of None \<Rightarrow> Ret () s5
              | Some cs \<Rightarrow>
                  andThen (c_puts (b_con b) (ascii ''  '') s5) (\<lambda>_ s6.
                  andThen (c_puts (b_con b) cs s6) (\<lambda>_ s7. c_putc (b_con b) 10 s7)))))))"

definition ruby_on_bare_metal_cruby_demo ::
  "bool \<Rightarrow> 'a sys_scheme build \<Rightarrow> 'a sys_scheme cruby \<Rightarrow> ptr \<Rightarrow> 'a sys_scheme \<Rightarrow> (unit, 'a sys_scheme) outcome" where
  "ruby_on_bare_metal_cruby_demo for_uefi b rb stack_anchor s =
     andThen (ruby_init_stack rb stack_anchor s) (\<lambda>_ s1.
     andThen (ruby_setup rb s1) (\<lambda>_ s2.
     andThen (rb_call_builtin_inits rb s2) (\<lambda>_ s3.
     andThen (ruby_script rb (ascii ''ruby_on_bare_metal'') s3) (\<lambda>_ s4.
       let script = fst (ruby_on_bare_metal_embedded_file_data (b_files b) (Some (entry_script for_uefi)) 0)
       in andThen (if script = 0 then panic (b_con b) (ascii ''entry script not found'') s4 else Ret () s4) (\<lambda>_ s5.
          andThen (c_puts (b_con b) (ascii ''ruby eval start'' @ [10]) s5) (\<lambda>_ s6.
          andThen (rb_eval_string_protect rb script s6) (\<lambda>state s7.
          andThen (if state \<noteq> 0 then report_exception b rb s7 else Ret () s7) (\<lambda>_ s8.
            c_puts (b_con b) (ascii ''ruby eval done'' @ [10]) s8))))))))"

section \<open>The kernel's entry\<close>

text \<open>\<open>tls_mem\<close> is the address of the static TLS block.\<close>

definition init_musl_tls :: "ptr \<Rightarrow> 'a hw_scheme \<Rightarrow> 'a hw_scheme" where
  "init_musl_tls tls_mem s =
     (let tp = tls_mem + 4096 in wrmsr 0xC0000100 tp (store64 tp tp s))"

definition vdsosym :: "ptr \<Rightarrow> ptr \<Rightarrow> ptr" where
  "vdsosym vername name = 0"

definition kernel_main ::
  "bool \<Rightarrow> 'a sys_scheme build \<Rightarrow> 'a sys_scheme cruby \<Rightarrow> ptr \<Rightarrow> ptr \<Rightarrow> 'a sys_scheme \<Rightarrow> (unit, 'a sys_scheme) outcome" where
  "kernel_main for_uefi b rb tls_mem stack_anchor s =
     (let puts = c_puts (b_con b)
      in andThen (puts (ascii ''boot ok'' @ [10]) (c_init (b_con b) s)) (\<lambda>_ s1.
         andThen (timer_init s1) (\<lambda>_ s2.
         andThen (puts (ascii ''timer ok'' @ [10]) s2) (\<lambda>_ s3.
         andThen (puts (ascii ''tls ok'' @ [10]) (init_musl_tls tls_mem s3)) (\<lambda>_ s4.
         andThen (if for_uefi then Ret () s4 else puts (ascii ''memory ok'' @ [10]) (memory_init s4)) (\<lambda>_ s5.
         andThen (if ruby_on_bare_metal_file_exists (b_files b) (Some (ascii ''/hello.rb''))
                  then puts (ascii ''embedded script ok'' @ [10]) s5
                  else panic (b_con b) (ascii ''embedded script missing'') s5) (\<lambda>_ s6.
         andThen (puts (ascii ''cruby init start'' @ [10]) s6) (\<lambda>_ s7.
         andThen (ruby_on_bare_metal_cruby_demo for_uefi b rb stack_anchor s7) (\<lambda>_ s8.
         andThen (puts (ascii ''cruby init ok'' @ [10]) s8) (\<lambda>_ s9. Stop Halted s9))))))))))"

section \<open>Encodings and extensions\<close>

definition Init_enc :: "'s cruby \<Rightarrow> 's \<Rightarrow> (unit, 's) outcome" where
  "Init_enc rb s =
     andThen (rb_encdb_declare rb (ascii ''ASCII-8BIT'') s) (\<lambda>_ s1.
     andThen (rb_encdb_declare rb (ascii ''US-ASCII'') s1) (\<lambda>_ s2.
     andThen (rb_encdb_declare rb (ascii ''UTF-8'') s2) (\<lambda>_ s3.
     andThen (rb_encdb_alias rb (ascii ''BINARY'') (ascii ''ASCII-8BIT'') s3) (\<lambda>_ s4.
     andThen (rb_encdb_alias rb (ascii ''ASCII'') (ascii ''US-ASCII'') s4) (\<lambda>_ s5. Ret () s5)))))"

definition Init_ext :: "'s \<Rightarrow> 's" where
  "Init_ext s = s"

definition Init_extra_exts :: "'s \<Rightarrow> 's" where
  "Init_extra_exts s = s"

section \<open>Lemmas\<close>

lemma andThen_assoc: "andThen (andThen o' f) g = andThen o' (\<lambda>x s. andThen (f x s) g)"
  by (cases o') simp_all

lemma kernel_main_stops: "\<exists>r t. kernel_main u b rb tls anchor s = Stop r t"
  unfolding kernel_main_def Let_def by (intro andThen_stops) simp

text \<open>Whether the console is there and between two sequences is not changed by what does not print.\<close>

definition same_console :: "'a uefi_scheme \<Rightarrow> 'a uefi_scheme \<Rightarrow> bool" where
  "same_console s t \<longleftrightarrow> has_con_out t = has_con_out s \<and> ansi_state t = ansi_state s"

lemma same_console_refl [simp]: "same_console s s" by (simp add: same_console_def)

lemma same_console_trans: "same_console s t \<Longrightarrow> same_console t u \<Longrightarrow> same_console s u"
  by (simp add: same_console_def)

lemma same_console_steps [simp]:
  "same_console s (s\<lparr>evs := e\<rparr>)" "same_console s (memory_init s)" "same_console s (init_musl_tls p s)"
  by (simp_all add: same_console_def has_con_out_def memory_init_def init_musl_tls_def Let_def wrmsr_def emit_def store_def)

definition undisturbed :: "'a sys_scheme \<Rightarrow> 'a sys_scheme \<Rightarrow> bool" where
  "undisturbed s t \<longleftrightarrow> evs t = evs s \<and> same_console s t"

text \<open>What the calls before the evaluation may do: return, without console output.\<close>

definition ruby_starts :: "'a sys_scheme cruby \<Rightarrow> bool" where
  "ruby_starts rb \<longleftrightarrow>
     (\<forall>p s. \<exists>t. ruby_init_stack rb p s = Ret () t \<and> undisturbed s t)
     \<and> (\<forall>s. \<exists>r t. ruby_setup rb s = Ret r t \<and> undisturbed s t)
     \<and> (\<forall>s. \<exists>t. rb_call_builtin_inits rb s = Ret () t \<and> undisturbed s t)
     \<and> (\<forall>n s. \<exists>t. ruby_script rb n s = Ret () t \<and> undisturbed s t)"

lemma undisturbed_trans: "undisturbed s t \<Longrightarrow> undisturbed t u \<Longrightarrow> undisturbed s u"
  by (auto simp: undisturbed_def intro: same_console_trans)

lemma ruby_start:
  assumes "ruby_starts rb"
  shows "\<exists>t. andThen (ruby_init_stack rb p s) (\<lambda>_ s1. andThen (ruby_setup rb s1) (\<lambda>_ s2.
      andThen (rb_call_builtin_inits rb s2) (\<lambda>_ s3. andThen (ruby_script rb n s3) k))) = k () t \<and> undisturbed s t"
proof -
  obtain s1 where 1: "ruby_init_stack rb p s = Ret () s1" "undisturbed s s1" using assms unfolding ruby_starts_def by metis
  obtain r s2 where 2: "ruby_setup rb s1 = Ret r s2" "undisturbed s1 s2" using assms unfolding ruby_starts_def by metis
  obtain s3 where 3: "rb_call_builtin_inits rb s2 = Ret () s3" "undisturbed s2 s3" using assms unfolding ruby_starts_def by metis
  obtain s4 where 4: "ruby_script rb n s3 = Ret () s4" "undisturbed s3 s4" using assms unfolding ruby_starts_def by metis
  have "undisturbed s s4" using 1(2) 2(2) 3(2) 4(2) by (blast intro: undisturbed_trans)
  then show ?thesis using 1(1) 2(1) 3(1) 4(1) by auto
qed

text \<open>The exception report when CRuby answers every question.\<close>

definition ruby_answers :: "'a sys_scheme cruby \<Rightarrow> bytes \<Rightarrow> bool" where
  "ruby_answers rb msg \<longleftrightarrow>
     (\<forall>s. \<exists>err t. rb_errinfo rb s = Ret err t \<and> err \<noteq> 0 \<and> undisturbed s t)
     \<and> (\<forall>n s. \<exists>i t. rb_intern rb n s = Ret i t \<and> undisturbed s t)
     \<and> (\<forall>e i s. \<exists>v t. rb_funcall rb e i s = Ret v t \<and> undisturbed s t)
     \<and> (\<forall>v s. \<exists>t. rb_string_value_cstr rb v s = Ret (Some msg) t \<and> undisturbed s t)"

text \<open>The device events of the kernel's bring-up.\<close>

definition uart_setup :: "io_event list" where
  "uart_setup = [Outb 0x3F9 0, Outb 0x3FB 0x80, Outb COM1 3, Outb 0x3F9 0, Outb 0x3FB 3, Outb 0x3FA 0xC7, Outb 0x3FC 0x0B]"

definition pit_setup :: "'a hw_scheme \<Rightarrow> io_event list" where
  "pit_setup s = [Outb 0x61 ((port_in s 0x61 (port_pos s 0x61) AND 0xFD) OR 1), Outb 0x43 0xB0, Outb 0x42 0x0B, Outb 0x42 0xE9]"

definition fs_base :: "ptr \<Rightarrow> io_event" where
  "fs_base tp = Wrmsr 0xC0000100 (ucast (tp AND 0xFFFFFFFF)) (ucast (drop_bit 32 tp))"

text \<open>
  The lines of the bring-up, for a console that starts with the events \<open>start\<close> and prints a text as
  the events \<open>tx\<close>.
\<close>

definition boot_evs :: "io_event list \<Rightarrow> (bytes \<Rightarrow> io_event list) \<Rightarrow> bool \<Rightarrow> ptr \<Rightarrow> 'a hw_scheme \<Rightarrow> io_event list" where
  "boot_evs start tx u tls_mem s =
     start @ tx (ascii ''boot ok'' @ [10]) @ pit_setup s @ tx (ascii ''timer ok'' @ [10])
     @ [fs_base (tls_mem + 4096)] @ tx (ascii ''tls ok'' @ [10]) @ (if u then [] else tx (ascii ''memory ok'' @ [10]))"

definition bring_up :: "io_event list \<Rightarrow> (bytes \<Rightarrow> io_event list) \<Rightarrow> bool \<Rightarrow> ptr \<Rightarrow> 'a hw_scheme \<Rightarrow> io_event list" where
  "bring_up start tx u tls_mem s = boot_evs start tx u tls_mem s
     @ tx (ascii ''embedded script ok'' @ [10]) @ tx (ascii ''cruby init start'' @ [10])
     @ tx (ascii ''ruby eval start'' @ [10])"

text \<open>What follows the bring-up.\<close>

definition kernel_rest :: "bool \<Rightarrow> 'a sys_scheme build \<Rightarrow> 'a sys_scheme cruby \<Rightarrow> ptr \<Rightarrow> 'a sys_scheme \<Rightarrow> (unit, 'a sys_scheme) outcome" where
  "kernel_rest for_uefi b rb stack_anchor s5 =
     (let puts = c_puts (b_con b)
      in andThen (if ruby_on_bare_metal_file_exists (b_files b) (Some (ascii ''/hello.rb''))
                  then puts (ascii ''embedded script ok'' @ [10]) s5
                  else panic (b_con b) (ascii ''embedded script missing'') s5) (\<lambda>_ s6.
         andThen (puts (ascii ''cruby init start'' @ [10]) s6) (\<lambda>_ s7.
         andThen (ruby_on_bare_metal_cruby_demo for_uefi b rb stack_anchor s7) (\<lambda>_ s8.
         andThen (puts (ascii ''cruby init ok'' @ [10]) s8) (\<lambda>_ s9. Stop Halted s9)))))"

section \<open>Consoles that print lines\<close>

text \<open>
  What the boot code relies on: a console that is there (\<open>present\<close>) is ready (\<open>up\<close>) once it has been
  initialised, stays so, and turns every \<open>plain\<close> text into the events \<open>tx\<close>.
\<close>

locale line_console = sys_layer b
  for b :: "'a sys_scheme build" +
  fixes present up :: "'a sys_scheme \<Rightarrow> bool" and start :: "io_event list"
    and tx :: "bytes \<Rightarrow> io_event list" and plain :: "bytes \<Rightarrow> bool"
  assumes init_up: "present s \<Longrightarrow> up (c_init (b_con b) s)"
    and init_evs: "present s \<Longrightarrow> evs (c_init (b_con b) s) = evs s @ start"
    and init_ports: "port_in (c_init (b_con b) s) = port_in s" "port_pos (c_init (b_con b) s) = port_pos s"
    and puts_tx: "up s \<Longrightarrow> plain cs \<Longrightarrow> c_puts (b_con b) cs s = Ret () (s\<lparr>evs := evs s @ tx cs\<rparr>)"
    and putc_tx: "up s \<Longrightarrow> plain [c] \<Longrightarrow> c_putc (b_con b) c s = Ret () (s\<lparr>evs := evs s @ tx [c]\<rparr>)"
    and up_same: "up s \<Longrightarrow> same_console s t \<Longrightarrow> up t"
    and plain_ascii: "0x1B \<notin> set cs \<Longrightarrow> plain cs"
    and tx_append: "tx (xs @ ys) = tx xs @ tx ys"
begin

lemma up_steps:
  "up s \<Longrightarrow> up (s\<lparr>evs := e\<rparr>)" "up s \<Longrightarrow> up (memory_init s)" "up s \<Longrightarrow> up (init_musl_tls p s)"
  "up s \<Longrightarrow> undisturbed s t \<Longrightarrow> up t"
  by (auto simp: undisturbed_def intro: up_same)

lemma plain_messages [simp]:
  "plain [10]" "plain (ascii ''panic: '')" "plain (ascii ''  '')" "plain (ascii ''embedded script missing'')" "plain (ascii ''entry script not found'')"
  "plain (ascii ''boot ok'' @ [10])"
  "plain (ascii ''timer ok'' @ [10])"
  "plain (ascii ''tls ok'' @ [10])"
  "plain (ascii ''memory ok'' @ [10])"
  "plain (ascii ''embedded script ok'' @ [10])"
  "plain (ascii ''cruby init start'' @ [10])"
  "plain (ascii ''ruby eval start'' @ [10])"
  "plain (ascii ''ruby eval done'' @ [10])"
  "plain (ascii ''cruby init ok'' @ [10])"
  "plain (ascii ''ruby exception:'' @ [10])"
  by (rule plain_ascii, simp)+

lemma panic_tx: "up s \<Longrightarrow> plain msg \<Longrightarrow> panic (b_con b) msg s = Stop Halted (s\<lparr>evs := evs s @ tx (ascii ''panic: '' @ msg @ [10])\<rparr>)"
  by (simp add: panic_def puts_tx up_steps tx_append del: ascii_simps)

lemma kernel_up:
  assumes "\<exists>d. pit_high s (Suc (port_pos s 0x61) + d)" and "present s"
  shows "\<exists>t. kernel_main u b rb tls_mem anchor s = kernel_rest u b rb anchor t
     \<and> evs t = evs s @ boot_evs start tx u tls_mem s \<and> up t"
proof -
  define d where "d = (LEAST d. pit_high s (Suc (port_pos s 0x61) + d))"
  define s0 where "s0 = c_init (b_con b) s"
  define s1 where "s1 = s0\<lparr>evs := evs s0 @ tx (ascii ''boot ok'' @ [10])\<rparr>"
  have s0: "up s0" "evs s0 = evs s @ start" "port_in s0 = port_in s" "port_pos s0 = port_pos s"
    using init_up init_evs init_ports assms(2) by (simp_all add: s0_def)
  have boot: "c_puts (b_con b) (ascii ''boot ok'' @ [10]) s0 = Ret () s1" and up1: "up s1"
    using s0(1) by (simp_all add: s1_def puts_tx up_steps del: ascii_simps)
  have high: "pit_high s1 = pit_high s" by (simp add: pit_high_def fun_eq_iff s1_def s0)
  have "pit_high s1 (Suc (port_pos s1 0x61) + d)" "\<And>j. j < d \<Longrightarrow> \<not> pit_high s1 (Suc (port_pos s1 0x61) + j)"
    unfolding high unfolding s1_def d_def using LeastI_ex [OF assms(1)] not_less_Least by (simp_all add: s0) blast+
  then obtain s2 where s2: "timer_init s1 = Ret () s2" "evs s2 = evs s1 @ pit_setup s"
    using timer_init_result [of s1 d] by (auto simp: pit_setup_def s1_def s0)
  have "same_console s1 s2" using timer_init_frame [of s1] s2(1) by (simp add: timer_frame_def same_console_def has_con_out_def)
  with up1 have up2: "up s2" by (rule up_same)
  define s4 where "s4 = init_musl_tls tls_mem (s2\<lparr>evs := evs s2 @ tx (ascii ''timer ok'' @ [10])\<rparr>)"
  define s5 where "s5 = s4\<lparr>evs := evs s4 @ tx (ascii ''tls ok'' @ [10])\<rparr>"
  define s6 where "s6 = (if u then s5 else (memory_init s5)\<lparr>evs := evs s5 @ tx (ascii ''memory ok'' @ [10])\<rparr>)"
  have up4: "up s4" "up s5" using up2 by (simp_all add: s4_def s5_def up_steps)
  then have up6: "up s6" by (simp add: s6_def up_steps)
  have "evs s6 = evs s @ boot_evs start tx u tls_mem s"
    by (simp add: s6_def s5_def s4_def memory_init_def init_musl_tls_def Let_def wrmsr_def emit_def store_def
          s2(2) s1_def s0(2) boot_evs_def fs_base_def del: ascii_simps)
  moreover have memory: "evs (memory_init s5) = evs s5" by (simp add: memory_init_def)
  moreover have "kernel_main u b rb tls_mem anchor s = kernel_rest u b rb anchor s6"
    using up2 up4 memory by (simp add: kernel_main_def kernel_rest_def Let_def s0_def [symmetric] boot s2(1) puts_tx up_steps
          s4_def [symmetric] s5_def [symmetric] s6_def del: ascii_simps)
  ultimately show ?thesis using up6 by blast
qed

lemma demo_run:
  assumes "up s" and "ruby_starts rb" and "tables_ok (b_files b)" and "files_map (b_files b) (entry_script u) = Some (d, n)"
  shows "\<exists>t. ruby_on_bare_metal_cruby_demo u b rb anchor s =
      andThen (rb_eval_string_protect rb d t) (\<lambda>state s7.
        andThen (if state \<noteq> 0 then report_exception b rb s7 else Ret () s7) (\<lambda>_ s8.
          c_puts (b_con b) (ascii ''ruby eval done'' @ [10]) s8))
      \<and> evs t = evs s @ tx (ascii ''ruby eval start'' @ [10]) \<and> up t"
proof -
  have "cstring (entry_script u)" by (simp add: entry_script_def cstring_def)
  then have script: "fst (ruby_on_bare_metal_embedded_file_data (b_files b) (Some (entry_script u)) 0) = d"
    using file_data_eq [OF assms(3), of _ 0] assms(4) by simp
  have d: "d \<noteq> 0" using files_map_data [OF assms(3,4)] .
  let ?k = "\<lambda>_ s4. andThen (if d = 0 then panic (b_con b) (ascii ''entry script not found'') s4 else Ret () s4) (\<lambda>_ s5.
          andThen (c_puts (b_con b) (ascii ''ruby eval start'' @ [10]) s5) (\<lambda>_ s6.
          andThen (rb_eval_string_protect rb d s6) (\<lambda>state s7.
          andThen (if state \<noteq> 0 then report_exception b rb s7 else Ret () s7) (\<lambda>_ s8.
            c_puts (b_con b) (ascii ''ruby eval done'' @ [10]) s8))))"
  obtain t where t: "andThen (ruby_init_stack rb anchor s) (\<lambda>_ s1. andThen (ruby_setup rb s1) (\<lambda>_ s2.
      andThen (rb_call_builtin_inits rb s2) (\<lambda>_ s3. andThen (ruby_script rb (ascii ''ruby_on_bare_metal'') s3) ?k))) = ?k () t"
      "undisturbed s t"
    using ruby_start [OF assms(2), of anchor s "ascii ''ruby_on_bare_metal''" ?k] by blast
  have up: "up t" using up_steps(4) [OF assms(1) t(2)] .
  have "ruby_on_bare_metal_cruby_demo u b rb anchor s = ?k () t"
    unfolding ruby_on_bare_metal_cruby_demo_def Let_def script t(1) ..
  then show ?thesis
    using d t(2) up by (auto simp: puts_tx undisturbed_def up_steps simp del: ascii_simps)
qed

text \<open>The whole run up to the evaluation of the entry script, and what follows it.\<close>

lemma kernel_main_evaluates:
  assumes "\<exists>d. pit_high s (Suc (port_pos s 0x61) + d)" and "present s" and "ruby_starts rb" and "tables_ok (b_files b)"
    and "files_map (b_files b) (ascii ''/hello.rb'') \<noteq> None" and "files_map (b_files b) (entry_script u) = Some (script, n)"
  shows "\<exists>t. kernel_main u b rb tls_mem anchor s =
      andThen (rb_eval_string_protect rb script t) (\<lambda>state s7.
        andThen (if state \<noteq> 0 then report_exception b rb s7 else Ret () s7) (\<lambda>_ s8.
          andThen (c_puts (b_con b) (ascii ''ruby eval done'' @ [10]) s8) (\<lambda>_ s9.
          andThen (c_puts (b_con b) (ascii ''cruby init ok'' @ [10]) s9) (\<lambda>_ s10. Stop Halted s10))))
      \<and> evs t = evs s @ bring_up start tx u tls_mem s \<and> up t"
proof -
  obtain s1 where s1: "kernel_main u b rb tls_mem anchor s = kernel_rest u b rb anchor s1"
      "evs s1 = evs s @ boot_evs start tx u tls_mem s" "up s1"
    using kernel_up [OF assms(1,2)] by blast
  have "cstring (ascii ''/hello.rb'')" by (simp add: cstring_def)
  then have ex: "ruby_on_bare_metal_file_exists (b_files b) (Some (ascii ''/hello.rb''))"
    using file_exists_eq [OF assms(4)] assms(5) by simp
  define s2 where "s2 = s1\<lparr>evs := evs s1 @ tx (ascii ''embedded script ok'' @ [10]) @ tx (ascii ''cruby init start'' @ [10])\<rparr>"
  have up2: "up s2" using s1(3) by (simp add: s2_def up_steps)
  obtain t where t: "ruby_on_bare_metal_cruby_demo u b rb anchor s2 =
      andThen (rb_eval_string_protect rb script t) (\<lambda>state s7.
        andThen (if state \<noteq> 0 then report_exception b rb s7 else Ret () s7) (\<lambda>_ s8.
          c_puts (b_con b) (ascii ''ruby eval done'' @ [10]) s8))"
      "evs t = evs s2 @ tx (ascii ''ruby eval start'' @ [10])" "up t"
    using demo_run [OF up2 assms(3,4,6)] by blast
  have "kernel_rest u b rb anchor s1 = andThen (ruby_on_bare_metal_cruby_demo u b rb anchor s2)
      (\<lambda>_ s8. andThen (c_puts (b_con b) (ascii ''cruby init ok'' @ [10]) s8) (\<lambda>_ s9. Stop Halted s9))"
    using s1(3) by (simp add: kernel_rest_def Let_def ex puts_tx up_steps s2_def del: ascii_simps)
  then show ?thesis
    using t(2,3) unfolding s1(1) t(1) by (auto simp: andThen_assoc s2_def s1(2) bring_up_def simp del: ascii_simps)
qed

lemma after_evaluation:
  assumes "up s"
  shows "\<exists>t. andThen (c_puts (b_con b) (ascii ''ruby eval done'' @ [10]) s) (\<lambda>_ s9.
          andThen (c_puts (b_con b) (ascii ''cruby init ok'' @ [10]) s9) (\<lambda>_ s10. Stop Halted s10)) = (Stop Halted t :: (unit, 'a sys_scheme) outcome)
     \<and> evs t = evs s @ tx (ascii ''ruby eval done'' @ [10]) @ tx (ascii ''cruby init ok'' @ [10])"
  using assms by (simp add: puts_tx up_steps del: ascii_simps)

lemma report_exception_run:
  assumes "ruby_answers rb msg" and "up s" and "plain msg"
  shows "\<exists>t. report_exception b rb s = Ret () t \<and> up t
     \<and> evs t = evs s @ tx (ascii ''ruby exception:'' @ [10]) @ tx (ascii ''  '') @ tx msg @ tx [10]"
proof -
  let ?s1 = "s\<lparr>evs := evs s @ tx (ascii ''ruby exception:'' @ [10])\<rparr>"
  obtain err s2 where 2: "rb_errinfo rb ?s1 = Ret err s2" "err \<noteq> 0" "undisturbed ?s1 s2"
    using assms(1) unfolding ruby_answers_def by metis
  obtain i s3 where 3: "rb_intern rb (ascii ''message'') s2 = Ret i s3" "undisturbed s2 s3"
    using assms(1) unfolding ruby_answers_def by metis
  obtain v s4 where 4: "rb_funcall rb err i s3 = Ret v s4" "undisturbed s3 s4"
    using assms(1) unfolding ruby_answers_def by metis
  obtain s5 where 5: "rb_string_value_cstr rb v s4 = Ret (Some msg) s5" "undisturbed s4 s5"
    using assms(1) unfolding ruby_answers_def by metis
  have und: "undisturbed ?s1 s5" using 2(3) 3(2) 4(2) 5(2) by (blast intro: undisturbed_trans)
  have up5: "up s5" using up_steps(4) [OF up_steps(1) [OF assms(2)] und] .
  have puts: "c_puts (b_con b) (ascii ''ruby exception:'' @ [10]) s = Ret () ?s1"
    using assms(2) by (simp add: puts_tx del: ascii_simps)
  let ?t = "s5\<lparr>evs := evs s5 @ tx (ascii ''  '') @ tx msg @ tx [10]\<rparr>"
  have "report_exception b rb s = Ret () ?t"
    using up5 assms(3) by (simp add: report_exception_def puts 2(1,2) 3(1) 4(1) 5(1) puts_tx putc_tx up_steps del: ascii_simps)
  then show ?thesis
    using und up5 by (simp add: undisturbed_def up_steps del: ascii_simps)
qed

lemma missing_script_run:
  assumes "\<exists>d. pit_high s (Suc (port_pos s 0x61) + d)" and "present s" and "tables_ok (b_files b)"
    and "files_map (b_files b) (ascii ''/hello.rb'') = None"
  shows "\<exists>t. kernel_main u b rb tls_mem anchor s = Stop Halted t
     \<and> evs t = evs s @ boot_evs start tx u tls_mem s @ tx (ascii ''panic: '' @ ascii ''embedded script missing'' @ [10])"
proof -
  obtain s1 where s1: "kernel_main u b rb tls_mem anchor s = kernel_rest u b rb anchor s1"
      "evs s1 = evs s @ boot_evs start tx u tls_mem s" "up s1"
    using kernel_up [OF assms(1,2)] by blast
  have "cstring (ascii ''/hello.rb'')" by (simp add: cstring_def)
  then have "\<not> ruby_on_bare_metal_file_exists (b_files b) (Some (ascii ''/hello.rb''))"
    using file_exists_eq [OF assms(3)] assms(4) by simp
  then show ?thesis
    using s1(3) unfolding s1(1) kernel_rest_def Let_def by (simp add: panic_tx s1(2) del: ascii_simps)
qed

end





section \<open>The two builds\<close>

definition kernel_build :: "bool \<Rightarrow> file_tables \<Rightarrow> 'a sys_scheme build" where
  "kernel_build u ft = (if u then uefi_build ft else serial_build ft)"

definition console_start :: "bool \<Rightarrow> io_event list" where
  "console_start u = (if u then [ClearScreen] else uart_setup)"

definition printed :: "bool \<Rightarrow> bytes \<Rightarrow> io_event list" where
  "printed u = (if u then map text_event else com1)"

definition console_up :: "bool \<Rightarrow> 'a sys_scheme \<Rightarrow> bool" where
  "console_up u s \<longleftrightarrow> (u \<longrightarrow> has_con_out s \<and> ansi_state s = ST_NORMAL)"

lemma kernel_build_simps [simp]:
  "b_files (kernel_build u ft) = ft" "kernel_build True ft = uefi_build ft" "kernel_build False ft = serial_build ft"
  by (simp_all add: kernel_build_def)

lemma plain_byte:
  "ansi_state s = ST_NORMAL \<Longrightarrow> has_con_out s \<Longrightarrow> c \<noteq> 0x1B \<Longrightarrow>
     parse_byte c s = Ret () (s\<lparr>evs := evs s @ [text_event c]\<rparr>)"
  by (simp add: parse_byte_def raw_putc_def text_event_def emit_def)

interpretation kernel_con: line_console "kernel_build u ft" "\<lambda>s. u \<longrightarrow> has_con_out s" "console_up u"
    "console_start u" "printed u" "\<lambda>cs. u \<longrightarrow> 0x1B \<notin> set cs" for u ft
proof -
  have tx: "com1 (xs @ ys) = com1 xs @ com1 ys" for xs ys by (simp add: com1_def crlf_def)
  show "line_console (kernel_build u ft) (\<lambda>s. u \<longrightarrow> has_con_out s) (console_up u) (console_start u) (printed u) (\<lambda>cs. u \<longrightarrow> 0x1B \<notin> set cs)"
  proof (cases u)
    case True
    show ?thesis unfolding line_console_def line_console_axioms_def
      using True uefi_sys.sys_layer_axioms plain_text
      by (auto simp: plain_byte console_up_def console_start_def printed_def uefi_console_init_def ansi_reset_def emit_def
            has_con_out_def same_console_def uefi_console_puts_def uefi_console_putc_def)
  next
    case False
    show ?thesis unfolding line_console_def line_console_axioms_def
      using False serial_sys.sys_layer_axioms
      by (auto simp: console_up_def console_start_def printed_def serial_init_def outb_def emit_def uart_setup_def
            serial_puts_eq serial_putc_eq tx)
  qed
qed

section \<open>Properties\<close>

text \<open>
  C5 (functional).  On either build, when the interval timer expires, CRuby starts without
  printing and the entry script (\<open>/init.rb\<close>, under UEFI \<open>/autodemo.rb\<close>) ends without an exception,
  the machine prints exactly its bring-up lines, then whatever the script prints, then
  \<open>ruby eval done\<close> and \<open>cruby init ok\<close>, and halts: in particular \<open>cruby init ok\<close> appears after the
  script's output, not before it, and under UEFI there is no line \<open>memory ok\<close>.
\<close>

theorem boot_transcript:
  assumes "\<exists>d. pit_high s (Suc (port_pos s 0x61) + d)" and "u \<longrightarrow> has_con_out s" and "ruby_starts rb" and "tables_ok ft"
    and "files_map ft (ascii ''/hello.rb'') \<noteq> None" and "files_map ft (entry_script u) = Some (script, n)"
    and "\<forall>t. \<exists>v. rb_eval_string_protect rb script t = Ret 0 v \<and> evs v = evs t @ output \<and> (console_up u t \<longrightarrow> console_up u v)"
  shows "\<exists>t. kernel_main u (kernel_build u ft) rb tls_mem anchor s = Stop Halted t
     \<and> evs t = evs s @ bring_up (console_start u) (printed u) u tls_mem s @ output
         @ printed u (ascii ''ruby eval done'' @ [10]) @ printed u (ascii ''cruby init ok'' @ [10])"
proof -
  let ?rest = "\<lambda>s8. andThen (c_puts (b_con (kernel_build u ft)) (ascii ''ruby eval done'' @ [10]) s8) (\<lambda>_ s9.
          andThen (c_puts (b_con (kernel_build u ft)) (ascii ''cruby init ok'' @ [10]) s9) (\<lambda>_ s10. Stop Halted s10))"
  obtain t where t: "kernel_main u (kernel_build u ft) rb tls_mem anchor s =
      andThen (rb_eval_string_protect rb script t) (\<lambda>state s7.
        andThen (if state \<noteq> 0 then report_exception (kernel_build u ft) rb s7 else Ret () s7) (\<lambda>_. ?rest))"
      "evs t = evs s @ bring_up (console_start u) (printed u) u tls_mem s" "console_up u t"
    using kernel_con.kernel_main_evaluates [where u = u and ft = ft, unfolded kernel_build_simps(1), OF assms(1-6)] by blast
  obtain v where v: "rb_eval_string_protect rb script t = Ret 0 v" "evs v = evs t @ output" "console_up u v"
    using assms(7) t(3) by blast
  then show ?thesis
    using kernel_con.after_evaluation [OF v(3)] unfolding t(1) by (auto simp: t(2) simp del: ascii_simps)
qed

text \<open>
  A stand-in for CRuby, for the examples: it returns from every call, prints \<open>out\<close> during the
  evaluation and answers the questions about the exception with \<open>msg\<close>.
\<close>

definition sample_ruby :: "io_event list \<Rightarrow> int \<Rightarrow> bytes \<Rightarrow> 'a hw_scheme cruby" where
  "sample_ruby out st msg =
     \<lparr>ruby_init_stack = (\<lambda>_ s. Ret () s), ruby_setup = (\<lambda>s. Ret 0 s), rb_call_builtin_inits = (\<lambda>s. Ret () s),
      ruby_script = (\<lambda>_ s. Ret () s), rb_eval_string_protect = (\<lambda>_ s. Ret st (s\<lparr>evs := evs s @ out\<rparr>)),
      rb_errinfo = (\<lambda>s. Ret 0x10 s), rb_intern = (\<lambda>_ s. Ret 1 s), rb_funcall = (\<lambda>_ _ s. Ret 0x20 s),
      rb_string_value_cstr = (\<lambda>_ s. Ret (Some msg) s), rb_encdb_declare = (\<lambda>_ s. Ret () s),
      rb_encdb_alias = (\<lambda>_ _ s. Ret 0 s)\<rparr>"

definition boot_sys :: sys where
  "boot_sys = blank_sys\<lparr>port_in := (\<lambda>p k. if k = 2 then 0x20 else 0)\<rparr>"

definition boot_files :: file_tables where
  "boot_files =
     \<lparr>generated_files = [\<lparr>ef_path = ascii ''/init.rb'', ef_data = 0x500000, ef_size = 26\<rparr>,
                         \<lparr>ef_path = ascii ''/hello.rb'', ef_data = 0x500100, ef_size = 9\<rparr>,
                         \<lparr>ef_path = ascii ''/autodemo.rb'', ef_data = 0x500200, ef_size = 40\<rparr>],
      mui_files = []\<rparr>"

lemma boot_sys_pit: "\<exists>d. pit_high boot_sys (Suc (port_pos boot_sys 0x61) + d)"
  by (rule exI [of _ 1]) (simp add: pit_high_def boot_sys_def blank_sys_def uefi.defs blank_uefi_def blank_hw_def hw.defs)

lemma boot_files_simps:
  "tables_ok boot_files" "files_map boot_files (ascii ''/hello.rb'') \<noteq> None" "evs boot_sys = []"
  "files_map boot_files (entry_script False) = Some (0x500000, 26)" "files_map boot_files (entry_script True) = Some (0x500200, 40)"
  by (simp_all add: boot_files_def tables_ok_def cstring_def files_map_def boot_sys_def entry_script_def)

lemma boot_sys_console: "u \<longrightarrow> has_con_out boot_sys"
  by (simp add: boot_sys_def has_con_out_def blank_sys_def uefi.defs blank_uefi_def blank_hw_def hw.defs)

lemma sample_ruby_simps:
  "ruby_starts (sample_ruby out st msg)" "ruby_answers (sample_ruby out st msg) msg"
  "\<forall>t. \<exists>v. rb_eval_string_protect (sample_ruby out st msg) script t = Ret st v \<and> evs v = evs t @ out
     \<and> (console_up u t \<longrightarrow> console_up u v)"
  by (simp_all add: ruby_starts_def ruby_answers_def sample_ruby_def undisturbed_def console_up_def has_con_out_def)

theorem boot_transcript_witness:
  "(\<exists>t. kernel_main False (serial_build boot_files) (sample_ruby (com1 (ascii ''42'' @ [10])) 0 []) 0x200000 0x9000 boot_sys = Stop Halted t
     \<and> evs t = bring_up uart_setup com1 False 0x200000 boot_sys @ com1 (ascii ''42'' @ [10])
         @ com1 (ascii ''ruby eval done'' @ [10]) @ com1 (ascii ''cruby init ok'' @ [10]))
   \<and> (\<exists>t. kernel_main True (uefi_build boot_files) (sample_ruby [] 0 []) 0x200000 0x9000 boot_sys = Stop Halted t
     \<and> evs t = bring_up [ClearScreen] (map text_event) True 0x200000 boot_sys
         @ map text_event (ascii ''ruby eval done'' @ [10]) @ map text_event (ascii ''cruby init ok'' @ [10]))"
proof (intro conjI, goal_cases)
  case 1
  show ?case
    using boot_transcript [OF boot_sys_pit boot_sys_console sample_ruby_simps(1) boot_files_simps(1,2,4) sample_ruby_simps(3)]
    unfolding boot_files_simps(3) append_Nil kernel_build_simps console_start_def printed_def if_False .
next
  case 2
  show ?case
    using boot_transcript [OF boot_sys_pit boot_sys_console sample_ruby_simps(1) boot_files_simps(1,2,5) sample_ruby_simps(3) [where out = "[]"]]
    unfolding boot_files_simps(3) append_Nil kernel_build_simps console_start_def printed_def if_True .
qed

text \<open>
  C24 (error).  When the script ends with an exception, its message is printed after
  \<open>ruby exception:\<close> and the kernel still comes to its regular end, on either build.  (On the UEFI
  console the message must not contain escape bytes to appear as it is.)
\<close>

theorem exception_reported:
  assumes "\<exists>d. pit_high s (Suc (port_pos s 0x61) + d)" and "u \<longrightarrow> has_con_out s" and "ruby_starts rb" and "tables_ok ft"
    and "files_map ft (ascii ''/hello.rb'') \<noteq> None" and "files_map ft (entry_script u) = Some (script, n)"
    and "\<forall>t. \<exists>v. rb_eval_string_protect rb script t = Ret state v \<and> evs v = evs t @ output \<and> (console_up u t \<longrightarrow> console_up u v)"
    and "state \<noteq> 0" and "ruby_answers rb msg" and "u \<longrightarrow> 0x1B \<notin> set msg"
  shows "\<exists>t. kernel_main u (kernel_build u ft) rb tls_mem anchor s = Stop Halted t
     \<and> evs t = evs s @ bring_up (console_start u) (printed u) u tls_mem s @ output
         @ printed u (ascii ''ruby exception:'' @ [10]) @ printed u (ascii ''  '') @ printed u msg @ printed u [10]
         @ printed u (ascii ''ruby eval done'' @ [10]) @ printed u (ascii ''cruby init ok'' @ [10])"
proof -
  let ?rest = "\<lambda>s8. andThen (c_puts (b_con (kernel_build u ft)) (ascii ''ruby eval done'' @ [10]) s8) (\<lambda>_ s9.
          andThen (c_puts (b_con (kernel_build u ft)) (ascii ''cruby init ok'' @ [10]) s9) (\<lambda>_ s10. Stop Halted s10))"
  obtain t where t: "kernel_main u (kernel_build u ft) rb tls_mem anchor s =
      andThen (rb_eval_string_protect rb script t) (\<lambda>state s7.
        andThen (if state \<noteq> 0 then report_exception (kernel_build u ft) rb s7 else Ret () s7) (\<lambda>_. ?rest))"
      "evs t = evs s @ bring_up (console_start u) (printed u) u tls_mem s" "console_up u t"
    using kernel_con.kernel_main_evaluates [where u = u and ft = ft, unfolded kernel_build_simps(1), OF assms(1-6)] by blast
  obtain v where v: "rb_eval_string_protect rb script t = Ret state v" "evs v = evs t @ output" "console_up u v"
    using assms(7) t(3) by blast
  obtain w where w: "report_exception (kernel_build u ft) rb v = Ret () w" "console_up u w"
      "evs w = evs v @ printed u (ascii ''ruby exception:'' @ [10]) @ printed u (ascii ''  '') @ printed u msg @ printed u [10]"
    using kernel_con.report_exception_run [where u = u and ft = ft, OF assms(9) v(3) assms(10)] by blast
  then show ?thesis
    using kernel_con.after_evaluation [OF w(2)] v assms(8) unfolding t(1) by (auto simp: t(2) simp del: ascii_simps)
qed

theorem exception_reported_witness:
  "\<exists>t. kernel_main True (uefi_build boot_files) (sample_ruby [] 6 (ascii ''divided by 0'')) 0x200000 0x9000 boot_sys = Stop Halted t
     \<and> evs t = bring_up [ClearScreen] (map text_event) True 0x200000 boot_sys
         @ map text_event (ascii ''ruby exception:'' @ [10]) @ map text_event (ascii ''  '')
         @ map text_event (ascii ''divided by 0'') @ map text_event [10]
         @ map text_event (ascii ''ruby eval done'' @ [10]) @ map text_event (ascii ''cruby init ok'' @ [10])"
proof -
  have "True \<longrightarrow> 0x1B \<notin> set (ascii ''divided by 0'')" by simp
  from exception_reported [OF boot_sys_pit boot_sys_console sample_ruby_simps(1) boot_files_simps(1,2,5) sample_ruby_simps(3) _ sample_ruby_simps(2) this,
      of 6 "[]" "0x200000" "0x9000"]
  show ?thesis
    unfolding boot_files_simps(3) append_Nil kernel_build_simps console_start_def printed_def if_True by simp
qed

text \<open>
  C37 (error).  Without /hello.rb in the image the kernel panics after its bring-up lines, on either build, when
  the interval timer expires and, under UEFI, the firmware has a console: CRuby is never started, whatever it would do.
\<close>

theorem boot_missing_script:
  assumes "\<exists>d. pit_high s (Suc (port_pos s 0x61) + d)" and "u \<longrightarrow> has_con_out s"
    and "tables_ok ft" and "files_map ft (ascii ''/hello.rb'') = None"
  shows "\<exists>t. kernel_main u (kernel_build u ft) rb tls_mem anchor s = Stop Halted t
     \<and> evs t = evs s @ boot_evs (console_start u) (printed u) u tls_mem s
         @ printed u (ascii ''panic: '' @ ascii ''embedded script missing'' @ [10])"
  using kernel_con.missing_script_run [where u = u and ft = ft, unfolded kernel_build_simps(1), OF assms] .

theorem boot_missing_script_witness:
  "\<exists>t. kernel_main False (serial_build two_tables) (sample_ruby [] 0 []) 0x200000 0x9000 boot_sys = Stop Halted t
     \<and> evs t = boot_evs uart_setup com1 False 0x200000 boot_sys @ com1 (ascii ''panic: '' @ ascii ''embedded script missing'' @ [10])"
proof -
  have "files_map two_tables (ascii ''/hello.rb'') = None" by (simp add: files_map_def two_tables_def)
  from boot_missing_script [OF boot_sys_pit boot_sys_console two_tables_ok(1) this, of False "sample_ruby [] 0 []" "0x200000" "0x9000"]
  show ?thesis
    unfolding boot_files_simps(3) append_Nil kernel_build_simps console_start_def printed_def if_False .
qed

text \<open>
  (equivalence)  The kernel's TLS set-up stores the thread pointer's self reference at the
  pointer and sets FS base just as the system call \<open>arch_prctl(ARCH_SET_FS)\<close> would: the two register
  halves make up the whole address.
\<close>

theorem tls_setup:
  "load64 (tls_mem + 4096) (init_musl_tls tls_mem s) = (tls_mem + 4096 :: u64)
   \<and> evs (init_musl_tls tls_mem s) = evs (snd (sys_arch_prctl 0x1002 (tls_mem + 4096) s))
   \<and> (case last (evs (init_musl_tls tls_mem s)) of
        Wrmsr r lo hi \<Rightarrow> r = 0xC0000100 \<and> push_bit 32 (ucast hi) OR ucast lo = (tls_mem + 4096 :: u64)
      | _ \<Rightarrow> False)"
proof -
  have "load64 (tls_mem + 4096) (wrmsr r a (store64 (tls_mem + 4096) (tls_mem + 4096) s)) = (tls_mem + 4096 :: u64)" for r a
    using load_store_widths(3) [of "tls_mem + 4096" "tls_mem + 4096" s] by (simp add: load_def wrmsr_def)
  then show ?thesis
    using wrmsr_halves [of "tls_mem + 4096"]
    by (simp add: init_musl_tls_def Let_def sys_arch_prctl_def wrmsr_def emit_def store_def)
qed

end
