(* ===== verification/Fd_Spec.thy ===== *)
theory Fd_Spec
  imports Fd_Files
begin

text \<open>
  What the descriptor calls promise, without pointers and tables: a file system of named byte
  strings, and a finite map from descriptors to a file and a position in it.  Every call on the
  64-entry table is shown to be the call of this specification, so any sequence of calls gives the
  results the specification gives.
\<close>

section \<open>The specification\<close>

datatype desc =
    Sink                        \<comment> \<open>console or end of a pipe: nothing to read from a file\<close>
  | File bytes nat              \<comment> \<open>contents and position\<close>

type_synonym descs = "int \<Rightarrow> desc option"

datatype fd_call =
    Open bytes
  | Read int ptr u64
  | Close int
  | Dup int
  | Dup2 int int
  | Pipe ptr

definition fd_range :: "int \<Rightarrow> bool" where
  "fd_range fd \<longleftrightarrow> 0 \<le> fd \<and> fd < int MAX_FD"

text \<open>The lowest descriptor from 3 on that is not open.\<close>

definition lowest_free :: "descs \<Rightarrow> nat option" where
  "lowest_free D = find (\<lambda>i. D (int i) = None) [3..<MAX_FD]"

text \<open>One call: its return value, the bytes it delivers, and the descriptors afterwards.\<close>

fun spec :: "(bytes \<Rightarrow> bytes option) \<Rightarrow> fd_call \<Rightarrow> descs \<Rightarrow> (u64 \<times> bytes) \<times> descs" where
  "spec fs (Open p) D =
     (case fs p of
        None \<Rightarrow> ((- ENOENT, []), D)
      | Some bs \<Rightarrow> (case lowest_free D of
                      None \<Rightarrow> ((- EMFILE, []), D)
                    | Some i \<Rightarrow> ((of_nat i, []), D(int i \<mapsto> File bs 0))))"
| "spec fs (Read fd buf n) D =
     (case (if 3 \<le> fd then D fd else None) of
        Some (File bs pos) \<Rightarrow>
          (let chunk = take (unat n) (drop pos bs)
           in ((of_nat (length chunk), chunk), D(fd \<mapsto> File bs (pos + length chunk))))
      | _ \<Rightarrow> ((0, []), D))"
| "spec fs (Close fd) D = (if fd_range fd then ((0, []), D(fd := None)) else ((- EBADF, []), D))"
| "spec fs (Dup fd) D =
     (if \<not> fd_range fd then ((- EBADF, []), D)
      else case lowest_free D of
             None \<Rightarrow> ((- EMFILE, []), D)
           | Some i \<Rightarrow> ((of_nat i, []), D(int i := D fd)))"
| "spec fs (Dup2 fd fd') D =
     (if fd_range fd \<and> fd_range fd' then ((of_int fd', []), D(fd' := D fd)) else ((- EBADF, []), D))"
| "spec fs (Pipe p) D =
     (case lowest_free D of
        None \<Rightarrow> ((- EMFILE, []), D)
      | Some i \<Rightarrow>
          (let D' = D(int i \<mapsto> Sink)
           in case lowest_free D' of
                None \<Rightarrow> ((- EMFILE, []), D')
              | Some j \<Rightarrow> ((0, le_bytes 4 (of_nat i :: u32) @ le_bytes 4 (of_nat j :: u32)), D'(int j \<mapsto> Sink))))"

fun spec_run :: "(bytes \<Rightarrow> bytes option) \<Rightarrow> fd_call list \<Rightarrow> descs \<Rightarrow> (u64 \<times> bytes) list \<times> descs" where
  "spec_run fs [] D = ([], D)"
| "spec_run fs (c # cs) D =
     (case spec fs c D of (r, D') \<Rightarrow> case spec_run fs cs D' of (rs, D'') \<Rightarrow> (r # rs, D''))"

section \<open>The calls of the kernel\<close>

text \<open>The same observation of a call of the kernel: its return value and the bytes it stored for the caller.\<close>

fun call :: "'a sys_scheme build \<Rightarrow> fd_call \<Rightarrow> 'a sys_scheme \<Rightarrow> (u64 \<times> bytes) \<times> 'a sys_scheme" where
  "call b (Open p) s = (case sys_open b (Some p) s of (r, t) \<Rightarrow> ((r, []), t))"
| "call b (Read fd buf n) s =
     (case sys_read b fd buf n s of
        Ret r t \<Rightarrow> ((r, mem_bytes (mem t) buf (unat r)), t)
      | Stop x t \<Rightarrow> ((0, []), t))"
| "call b (Close fd) s = (case sys_close fd s of (r, t) \<Rightarrow> ((r, []), t))"
| "call b (Dup fd) s = (case sys_dup fd s of (r, t) \<Rightarrow> ((r, []), t))"
| "call b (Dup2 fd fd') s = (case sys_dup2 fd fd' s of (r, t) \<Rightarrow> ((r, []), t))"
| "call b (Pipe p) s =
     (case sys_pipe p s of (r, t) \<Rightarrow> ((r, if r = 0 then mem_bytes (mem t) p 8 else []), t))"

fun call_run :: "'a sys_scheme build \<Rightarrow> fd_call list \<Rightarrow> 'a sys_scheme \<Rightarrow> (u64 \<times> bytes) list \<times> 'a sys_scheme" where
  "call_run b [] s = ([], s)"
| "call_run b (c # cs) s =
     (case call b c s of (r, t) \<Rightarrow> case call_run b cs t of (rs, u) \<Rightarrow> (r # rs, u))"

section \<open>Abstraction\<close>

definition desc_of :: "memory \<Rightarrow> fd_entry \<Rightarrow> desc option" where
  "desc_of m f =
     (if \<not> fe_used f then None
      else if fe_data f = 0 then Some Sink
      else Some (File (mem_bytes m (fe_data f) (unat (fe_size f))) (unat (fe_offset f))))"

definition descs_of :: "'a sys_scheme \<Rightarrow> descs" where
  "descs_of s fd = (if fd_range fd then desc_of (mem s) (fd_table s ! nat fd) else None)"

definition files_of :: "file_tables \<Rightarrow> 'a sys_scheme \<Rightarrow> bytes \<Rightarrow> bytes option" where
  "files_of ft s p = map_option (\<lambda>(d, n). mem_bytes (mem s) d (unat n)) (files_map ft p)"

text \<open>A range of memory that holds no part of an embedded file.\<close>

definition off_files :: "file_tables \<Rightarrow> ptr \<Rightarrow> nat \<Rightarrow> bool" where
  "off_files ft buf n \<longleftrightarrow>
     (\<forall>p d m a. files_map ft p = Some (d, m) \<longrightarrow> in_region buf n a \<longrightarrow> \<not> in_region d (unat m) a)"

fun call_ok :: "file_tables \<Rightarrow> fd_call \<Rightarrow> bool" where
  "call_ok ft (Open p) = cstring p"
| "call_ok ft (Read fd buf n) = (fd \<noteq> 0 \<and> off_files ft buf (unat n))"
| "call_ok ft (Pipe p) = off_files ft p 8"
| "call_ok ft _ = True"

section \<open>Lemmas\<close>

declare mem_bytes_none [simp]

lemma descs_used: "i < MAX_FD \<Longrightarrow> descs_of s (int i) = None \<longleftrightarrow> \<not> fe_used (fd_table s ! i)"
  by (simp add: descs_of_def fd_range_def desc_of_def)

lemma lowest_free_descs: "lowest_free (descs_of s) = first_free (fd_table s)"
proof -
  define L where "L = [3..<MAX_FD]"
  have "find (\<lambda>i. descs_of s (int i) = None) L = find (\<lambda>i. \<not> fe_used (fd_table s ! i)) L"
    by (rule find_cong [OF refl]) (auto simp: L_def intro!: descs_used)
  then show ?thesis unfolding lowest_free_def first_free_def L_def .
qed

lemma descs_update:
  "length (fd_table s) = MAX_FD \<Longrightarrow> i < MAX_FD \<Longrightarrow>
     descs_of (s\<lparr>fd_table := (fd_table s)[i := f]\<rparr>) = (descs_of s)(int i := desc_of (mem s) f)"
  by (auto simp: descs_of_def fd_range_def fun_eq_iff nth_list_update)

lemma lowest_freeI:
  assumes "3 \<le> i" and "i < MAX_FD" and "D (int i) = None" and "\<And>j. 3 \<le> j \<Longrightarrow> j < i \<Longrightarrow> D (int j) \<noteq> None"
  shows "lowest_free D = Some i"
proof -
  have split: "[3..<MAX_FD] = [3..<i] @ i # [Suc i..<MAX_FD]"
    using assms(1,2) upt_add_eq_append [of 3 i "MAX_FD - i"] upt_conv_Cons [of i MAX_FD] by simp
  have "find P (xs @ j # ys) = Some j" if "\<And>x. x \<in> set xs \<Longrightarrow> \<not> P x" "P j" for P xs ys and j :: nat
    using that by (induction xs) auto
  note this [of "[3..<i]" "\<lambda>j. D (int j) = None" i "[Suc i..<MAX_FD]"]
  then show ?thesis using assms(3,4) unfolding lowest_free_def split by auto
qed

text \<open>Memory changes away from the files change neither the files nor the descriptors.\<close>

definition files_kept :: "file_tables \<Rightarrow> 'a sys_scheme \<Rightarrow> 'a sys_scheme \<Rightarrow> bool" where
  "files_kept ft s t \<longleftrightarrow>
     (\<forall>p d n. files_map ft p = Some (d, n) \<longrightarrow> mem_bytes (mem t) d (unat n) = mem_bytes (mem s) d (unat n))"

lemma files_kept_off:
  assumes "off_files ft buf k" and "\<And>a. \<not> in_region buf k a \<Longrightarrow> mem t a = mem s a"
  shows "files_kept ft s t"
  unfolding files_kept_def
proof (intro allI impI)
  fix p d n assume f: "files_map ft p = Some (d, n)"
  show "mem_bytes (mem t) d (unat n) = mem_bytes (mem s) d (unat n)"
  proof (rule mem_bytes_frame)
    fix a assume "in_region d (unat n) a"
    then have "\<not> in_region buf k a" using assms(1) f unfolding off_files_def by blast
    then show "mem t a = mem s a" by (rule assms(2))
  qed (use unat_bound [of n] in simp)
qed

lemma files_of_kept: "files_kept ft s t \<Longrightarrow> files_of ft t = files_of ft s"
  by (auto simp: files_of_def files_kept_def fun_eq_iff split: option.split intro!: option.map_cong)

lemma entry_file:
  assumes "fd_ok ft f" and "fe_data f \<noteq> 0"
  shows "\<exists>p. files_map ft p = Some (fe_data f, fe_size f)"
  using assms by (auto simp: fd_ok_def ran_def)

lemma desc_of_kept:
  assumes "files_kept ft s t" and "fd_ok ft f"
  shows "desc_of (mem t) f = desc_of (mem s) f"
  using assms entry_file [OF assms(2)] by (auto simp: desc_of_def files_kept_def)

lemma descs_of_kept:
  assumes "files_kept ft s t" and "fd_inv ft s" and "fd_table t = fd_table s"
  shows "descs_of t = descs_of s"
proof
  fix fd
  show "descs_of t fd = descs_of s fd"
  proof (cases "fd_range fd")
    case True
    then have "fd_ok ft (fd_table s ! nat fd)"
      using assms(2) by (intro fds_ok_nth) (auto simp: fd_inv_def fd_range_def)
    with True show ?thesis by (simp add: descs_of_def assms(3) desc_of_kept [OF assms(1)])
  qed (simp add: descs_of_def)
qed

text \<open>What one call of the kernel does is what the specification says.\<close>

definition refines :: "'a sys_scheme build \<Rightarrow> fd_call \<Rightarrow> 'a sys_scheme \<Rightarrow> bool" where
  "refines b c s \<longleftrightarrow>
     (case call b c s of (r, t) \<Rightarrow>
        spec (files_of (b_files b) s) c (descs_of s) = (r, descs_of t)
        \<and> files_of (b_files b) t = files_of (b_files b) s \<and> fd_inv (b_files b) t)"

lemma open_refines:
  assumes "tables_ok (b_files b)" and "fd_inv (b_files b) s" and "cstring p"
  shows "refines b (Open p) s"
proof -
  have len: "length (fd_table s) = MAX_FD" using assms(2) by (simp add: fd_inv_def fds_ok_def)
  have inv: "fd_inv (b_files b) (snd (sys_open b (Some p) s))"
    using sys_open_fd_inv [OF assms(2,1) refl, of "Some p"] assms(3) by simp
  have "descs_of (opened i d n s) = (descs_of s)(int i \<mapsto> File (mem_bytes (mem s) d (unat n)) 0)"
    if "files_map (b_files b) p = Some (d, n)" "i < MAX_FD" for i d n
    using descs_update [OF len that(2)] files_map_data [OF assms(1) that(1)] by (simp add: opened_def desc_of_def)
  moreover have "files_of (b_files b) (opened i d n s) = files_of (b_files b) s" for i d n
    by (simp add: files_of_def fun_eq_iff opened_def)
  ultimately show ?thesis
    using inv first_free_SomeD [of "fd_table s"]
    by (auto simp: refines_def sys_open_eq [OF assms(1,3)] lowest_free_descs files_of_def split: option.split prod.split)
qed

lemma sys_read_inv_of:
  assumes "fd_inv ft s" and "fd \<noteq> 0" and "sys_read b fd buf n s = Ret r t"
  shows "fd_inv ft t"
proof -
  have "sys_read b fd buf n s = sys_read (serial_build ft) fd buf n s" using assms(2) by (simp add: sys_read_def)
  with assms(3) have "sys_read (serial_build ft) fd buf n s = Ret r t" by simp
  with serial_sys.sys_read_fd_inv [OF assms(1), of ft fd buf n] show ?thesis by simp
qed

lemma read_file_refines:
  assumes inv: "fd_inv (b_files b) s" and off: "off_files (b_files b) buf (unat n)"
    and fd: "3 \<le> fd" "fd < int MAX_FD" "fe_used (fd_table s ! nat fd)" "fe_data (fd_table s ! nat fd) \<noteq> 0"
  shows "refines b (Read fd buf n) s"
proof -
  define f where "f = fd_table s ! nat fd"
  define bs where "bs = mem_bytes (mem s) (fe_data f) (unat (fe_size f))"
  define r where "r = read_count f n"
  let ?t = "after_read fd buf r s" and ?u = "s\<lparr>fd_table := (fd_table s)[nat fd := f\<lparr>fe_offset := fe_offset f + r\<rparr>]\<rparr>"
  have len: "length (fd_table s) = MAX_FD" and nfd: "nat fd < MAX_FD" "int (nat fd) = fd"
    using inv fd by (auto simp: fd_inv_def fds_ok_def)
  have "fd_ok (b_files b) f" unfolding f_def using inv fd by (intro fds_ok_nth) (auto simp: fd_inv_def)
  then have le: "fe_offset f \<le> fe_size f" using fd(4) by (simp add: f_def fd_ok_def)
  note count = read_count_bounds [OF le, of n, folded r_def]
  have R: "sys_read b fd buf n s = Ret r ?t" using sys_read_step [OF fd, of b buf n] by (simp add: r_def f_def Let_def)
  have desc: "(if 3 \<le> fd then descs_of s fd else None) = Some (File bs (unat (fe_offset f)))"
    using fd by (simp add: descs_of_def desc_of_def fd_range_def bs_def f_def)
  have chunk: "take (unat n) (drop (unat (fe_offset f)) bs) = mem_bytes (mem ?t) buf (unat r)"
    using count read_bytes [OF le _ f_def [symmetric], of r buf] by (simp add: bs_def min_def)
  have lenr: "length (take (unat n) (drop (unat (fe_offset f)) bs)) = unat r" unfolding chunk by simp
  have kept: "files_kept (b_files b) s ?t"
  proof (rule files_kept_off [OF off])
    fix a assume "\<not> in_region buf (unat n) a"
    then have "\<not> in_region buf (unat r) a" by (simp add: in_region_def count)
    then show "mem ?t a = mem s a" by (simp add: after_read_def Let_def mem_memcpy mem_frames)
  qed
  have inv_t: "fd_inv (b_files b) ?t" using fd by (intro sys_read_inv_of [OF inv _ R]) simp
  have "descs_of ?t = descs_of ?u"
  proof (rule descs_of_kept)
    show "files_kept (b_files b) ?u ?t" using kept by (simp add: files_kept_def)
    show "fd_inv (b_files b) ?u" using inv_t by (simp add: fd_inv_def after_read_def f_def Let_def)
  qed (simp add: after_read_def f_def Let_def)
  also have "\<dots> = (descs_of s)(fd \<mapsto> File bs (unat (fe_offset f) + unat r))"
    using descs_update [OF len nfd(1), of "f\<lparr>fe_offset := fe_offset f + r\<rparr>"] nfd(2) fd count(2)
    by (simp add: desc_of_def bs_def f_def)
  finally show ?thesis
    using files_of_kept [OF kept] inv_t by (simp add: refines_def R desc lenr chunk Let_def del: length_take)
qed

lemma read_refines:
  assumes "tables_ok (b_files b)" and "fd_inv (b_files b) s" and ok: "call_ok (b_files b) (Read fd buf n)"
  shows "refines b (Read fd buf n) s"
proof (cases "3 \<le> fd \<and> fd < int MAX_FD \<and> fe_used (fd_table s ! nat fd) \<and> fe_data (fd_table s ! nat fd) \<noteq> 0")
  case True
  then show ?thesis using ok by (intro read_file_refines [OF assms(2)]) simp_all
next
  case False
  then have "sys_read b fd buf n s = Ret 0 s" using ok by (auto simp: sys_read_def)
  moreover have "(case (if 3 \<le> fd then descs_of s fd else None) of Some (File bs pos) \<Rightarrow> P bs pos | _ \<Rightarrow> Q) = Q"
    for P and Q :: "(u64 \<times> bytes) \<times> descs"
    using False by (auto simp: descs_of_def desc_of_def fd_range_def)
  ultimately show ?thesis using assms(2) by (simp add: refines_def)
qed

lemma close_refines:
  assumes "fd_inv (b_files b) s"
  shows "refines b (Close fd) s"
proof -
  have len: "length (fd_table s) = MAX_FD" using assms by (simp add: fd_inv_def fds_ok_def)
  have "descs_of (s\<lparr>fd_table := (fd_table s)[nat fd := closed_fd]\<rparr>) = (descs_of s)(fd := None)" if "fd_range fd"
  proof -
    have "nat fd < MAX_FD" "int (nat fd) = fd" using that by (auto simp: fd_range_def)
    then show ?thesis using descs_update [OF len, of "nat fd" closed_fd] by (simp add: desc_of_def closed_fd_def)
  qed
  then show ?thesis
    using assms sys_close_fd_inv [OF assms, of fd]
    by (auto simp: refines_def sys_close_def fd_range_def closed_fd_def files_of_def fun_eq_iff)
qed

lemma dup_refines:
  assumes "fd_inv (b_files b) s"
  shows "refines b (Dup fd) s"
proof -
  have len: "length (fd_table s) = MAX_FD" using assms by (simp add: fd_inv_def fds_ok_def)
  have "descs_of (s\<lparr>fd_table := (fd_table s)[i := fd_table s ! nat fd]\<rparr>) = (descs_of s)(int i := descs_of s fd)"
    if "fd_range fd" "i < MAX_FD" for i
    using descs_update [OF len that(2), of "fd_table s ! nat fd"] that(1) by (simp add: descs_of_def)
  then show ?thesis
    using assms sys_dup_fd_inv [OF assms, of fd] first_free_SomeD [of "fd_table s"]
    by (auto simp: refines_def sys_dup_def fd_range_def lowest_free_descs files_of_def fun_eq_iff split: option.split)
qed

lemma dup2_refines:
  assumes "fd_inv (b_files b) s"
  shows "refines b (Dup2 fd fd') s"
proof -
  have len: "length (fd_table s) = MAX_FD" using assms by (simp add: fd_inv_def fds_ok_def)
  have "descs_of (s\<lparr>fd_table := (fd_table s)[nat fd' := fd_table s ! nat fd]\<rparr>) = (descs_of s)(fd' := descs_of s fd)"
    if "fd_range fd" "fd_range fd'"
  proof -
    have "nat fd' < MAX_FD" "int (nat fd') = fd'" using that by (auto simp: fd_range_def)
    then show ?thesis using descs_update [OF len, of "nat fd'" "fd_table s ! nat fd"] that(1) by (simp add: descs_of_def)
  qed
  then show ?thesis
    using assms sys_dup2_fd_inv [OF assms, of fd fd']
    by (auto simp: refines_def sys_dup2_def fd_range_def files_of_def fun_eq_iff)
qed

text \<open>Two words stored one after the other, read back as eight bytes.\<close>

lemma two_words:
  "mem_bytes (mem (store32 (p + 4) (w :: u32) (store32 p (v :: u32) s))) p 8 = le_bytes 4 v @ le_bytes 4 w"
proof -
  let ?m = "mem_put (mem s) p (le_bytes 4 v)" and ?n = "mem_put (mem_put (mem s) p (le_bytes 4 v)) (p + 4) (le_bytes 4 w)"
  have len: "length (le_bytes 4 x) = 4" for x :: u32 by simp
  have split: "mem_bytes m p 8 = mem_bytes m p 4 @ mem_bytes m (p + 4) 4" for m
    using mem_bytes_take [of 4 8 m p] mem_bytes_drop [of 4 8 m p] append_take_drop_id [of 4 "mem_bytes m p 8"] by simp
  have "mem_bytes ?n p 4 = mem_bytes ?m p 4"
  proof (rule mem_bytes_cong)
    fix i :: nat assume "i < 4"
    then consider "i = 0" | "i = 1" | "i = 2" | "i = 3" by linarith
    then have "\<not> unat (p + of_nat i - (p + 4)) < length (le_bytes 4 w)" by cases (simp_all add: unsigned_minus_1_eq_mask mask_eq_exp_minus_1)
    then show "?n (p + of_nat i) = ?m (p + of_nat i)" by (simp only: mem_put_def if_False)
  qed
  also have "\<dots> = le_bytes 4 v" using mem_bytes_put [of "le_bytes 4 v" "mem s" p] by (simp add: len del: le_bytes.simps)
  finally have lo: "mem_bytes ?n p 4 = le_bytes 4 v" .
  have hi: "mem_bytes ?n (p + 4) 4 = le_bytes 4 w"
    using mem_bytes_put [of "le_bytes 4 w" ?m "p + 4"] by (simp add: len del: le_bytes.simps)
  show ?thesis unfolding split mem_store lo hi ..
qed

lemma two_words_frame:
  assumes "\<not> in_region p 8 a"
  shows "mem (store32 (p + 4) (w :: u32) (store32 p (v :: u32) s)) a = mem s a"
proof -
  have lo: "\<not> in_region p (length (le_bytes 4 v)) a" using assms by (simp add: in_region_def)
  have hi: "\<not> in_region (p + 4) (length (le_bytes 4 w)) a"
  proof
    define y where "y = a - (p + 4)"
    assume "in_region (p + 4) (length (le_bytes 4 w)) a"
    then have "unat y < 4" by (simp add: in_region_def y_def)
    then have "unat (y + 4) < 8" by (simp add: unat_word_ariths)
    moreover have "a - p = y + 4" by (simp add: y_def)
    ultimately show False using assms by (simp add: in_region_def)
  qed
  show ?thesis unfolding mem_store by (simp only: mem_frames(1) [OF hi] mem_frames(1) [OF lo])
qed

lemma claim_desc:
  assumes "fd_inv ft s" and "first_free (fd_table s) = Some i"
  shows "descs_of (s\<lparr>fd_table := claim i (fd_table s)\<rparr>) = (descs_of s)(int i \<mapsto> Sink)"
    and "fd_inv ft (s\<lparr>fd_table := claim i (fd_table s)\<rparr>)"
proof -
  have i: "i < MAX_FD" "\<not> fe_used (fd_table s ! i)" using first_free_SomeD [OF assms(2)] by auto
  have ok: "fds_ok ft (fd_table s)" using assms(1) by (simp add: fd_inv_def)
  then have f: "fd_ok ft (fd_table s ! i)" "length (fd_table s) = MAX_FD"
    using i(1) by (simp_all add: fds_ok_nth) (simp add: fds_ok_def)
  have d: "fe_data (fd_table s ! i) = 0" using f(1) i(2) by (auto simp: fd_ok_def split: if_splits)
  show "descs_of (s\<lparr>fd_table := claim i (fd_table s)\<rparr>) = (descs_of s)(int i \<mapsto> Sink)"
    using descs_update [OF f(2) i(1), of "(fd_table s ! i)\<lparr>fe_used := True\<rparr>"] d by (simp add: claim_def desc_of_def)
  have "fd_ok ft ((fd_table s ! i)\<lparr>fe_used := True\<rparr>)" using f(1) d by (simp add: fd_ok_def)
  then show "fd_inv ft (s\<lparr>fd_table := claim i (fd_table s)\<rparr>)"
    using ok by (simp add: fd_inv_def claim_def fds_ok_update)
qed

lemma pipe_refines:
  assumes "fd_inv (b_files b) s" and off: "off_files (b_files b) p 8"
  shows "refines b (Pipe p) s"
proof -
  have len: "length (fd_table s) = MAX_FD" using assms(1) by (simp add: fd_inv_def fds_ok_def)
  note eq = sys_pipe_eq [OF len, of p]
  show ?thesis
  proof (cases "first_free (fd_table s)")
    case None
    then show ?thesis using assms(1) by (simp add: refines_def eq lowest_free_descs)
  next
    case (Some i)
    define s1 where "s1 = s\<lparr>fd_table := claim i (fd_table s)\<rparr>"
    note c1 = claim_desc [OF assms(1) Some, folded s1_def]
    have fs1: "files_of (b_files b) s1 = files_of (b_files b) s" by (simp add: files_of_def s1_def fun_eq_iff)
    have free2: "lowest_free ((descs_of s)(int i \<mapsto> Sink)) = first_free (fd_table s1)"
      using lowest_free_descs [of s1] by (simp add: c1)
    show ?thesis
    proof (cases "first_free (fd_table s1)")
      case None
      have "sys_pipe p s = (- EMFILE, s1)" using Some None by (simp add: eq s1_def Let_def)
      then show ?thesis using c1(2) fs1 None by (simp add: refines_def lowest_free_descs Some free2 Let_def c1)
    next
      case (Some j)
      define s2 where "s2 = s1\<lparr>fd_table := claim j (fd_table s1)\<rparr>"
      define t where "t = store32 (p + 4) (of_nat j :: u32) (store32 p (of_nat i) s2)"
      note c2 = claim_desc [OF c1(2) Some, folded s2_def]
      have kept: "files_kept (b_files b) s2 t"
      proof (rule files_kept_off [OF off])
        fix a assume "\<not> in_region p 8 a"
        then show "mem t a = mem s2 a" unfolding t_def by (rule two_words_frame)
      qed
      have tab: "fd_table t = fd_table s2" by (simp add: t_def)
      have "sys_pipe p s = (0, t)"
        using \<open>first_free (fd_table s) = Some i\<close> Some by (simp add: eq s1_def t_def s2_def Let_def)
      moreover have "fd_inv (b_files b) t" using c2(2) by (simp add: fd_inv_def tab)
      moreover have "files_of (b_files b) t = files_of (b_files b) s"
        using files_of_kept [OF kept] fs1 by (simp add: files_of_def s2_def fun_eq_iff)
      moreover have "mem_bytes (mem t) p 8 = le_bytes 4 (of_nat i :: u32) @ le_bytes 4 (of_nat j :: u32)"
        unfolding t_def by (rule two_words)
      ultimately show ?thesis
        using descs_of_kept [OF kept c2(2) tab] c2(1) c1(1) \<open>first_free (fd_table s) = Some i\<close> Some
        by (simp add: refines_def lowest_free_descs free2 Let_def del: le_bytes.simps)
    qed
  qed
qed

lemma call_refines:
  assumes "tables_ok (b_files b)" and "fd_inv (b_files b) s" and "call_ok (b_files b) c"
  shows "refines b c s"
proof (cases c)
  case (Read fd buf n)
  then show ?thesis using read_refines [OF assms(1,2)] assms(3) by simp
qed (use assms open_refines close_refines dup_refines dup2_refines pipe_refines in auto)

lemma run_refines:
  assumes "tables_ok (b_files b)" and "fd_inv (b_files b) s" and "\<forall>c \<in> set cs. call_ok (b_files b) c"
  shows "case call_run b cs s of (rs, t) \<Rightarrow> spec_run (files_of (b_files b) s) cs (descs_of s) = (rs, descs_of t)"
  using assms(2,3)
proof (induction cs arbitrary: s)
  case (Cons c cs)
  obtain r t where c: "call b c s = (r, t)" by fastforce
  have "refines b c s" using call_refines [OF assms(1) Cons.prems(1)] Cons.prems(2) by simp
  then have t: "spec (files_of (b_files b) s) c (descs_of s) = (r, descs_of t)"
      "files_of (b_files b) t = files_of (b_files b) s" "fd_inv (b_files b) t"
    by (simp_all add: refines_def c)
  then show ?case using Cons.IH [OF t(3)] Cons.prems(2) by (auto simp: c split: prod.splits)
qed simp

section \<open>Properties\<close>

text \<open>
  C4 (refinement).  Any sequence of open, read, close, dup, dup2 and pipe calls returns, call by call,
  the values and the bytes of the specification, in which a descriptor is a file's contents with a
  position in it: the table, its pointers and offsets are invisible.  Buffers must not overlap the
  embedded files, and reads of the console (descriptor 0) are left out.
\<close>

theorem fd_layer_refines:
  assumes "tables_ok (b_files b)" and "fd_inv (b_files b) s" and "\<forall>c \<in> set cs. call_ok (b_files b) c"
    and "call_run b cs s = (rs, t)"
  shows "spec_run (files_of (b_files b) s) cs (descs_of s) = (rs, descs_of t)"
  using run_refines [OF assms(1-3)] assms(4) by simp

text \<open>
  The copy of a descriptor that \<open>dup\<close> makes has a position of its own: after it, both descriptors
  read the same bytes.
\<close>

theorem fd_layer_refines_witness:
  "fst (call_run (serial_build two_tables)
        [Open (ascii ''/init.rb''), Read 3 0x600000 5, Dup 3, Read 4 0x600000 6, Read 3 0x600000 6, Close 3, Read 3 0x600000 6] demo_sys)
   = [(3, []), (5, ascii ''puts ''), (4, []), (6, ascii ''[1, 2]''), (6, ascii ''[1, 2]''), (0, []), (0, [])]"
proof -
  let ?cs = "[Open (ascii ''/init.rb''), Read 3 0x600000 5, Dup 3, Read 4 0x600000 6, Read 3 0x600000 6, Close 3, Read 3 0x600000 6]"
  let ?rs = "[(3, []), (5, ascii ''puts ''), (4, []), (6, ascii ''[1, 2]''), (6, ascii ''[1, 2]''), (0, []), (0, [])] :: (u64 \<times> bytes) list"
  have off: "off_files two_tables 0x600000 n" if "n \<le> 6" for n
    using that by (auto simp: off_files_def files_map_def two_tables_def in_region_iff split: if_splits)
  have ok: "\<forall>c \<in> set ?cs. call_ok (b_files (serial_build two_tables)) c"
    using off two_tables_ok(2) by (simp del: ascii_simps)
  have len: "length demo_script = 26" by (simp add: demo_script_def)
  obtain rs t where run: "call_run (serial_build two_tables) ?cs demo_sys = (rs, t)" by fastforce
  have fs: "files_of two_tables demo_sys (ascii ''/init.rb'') = Some demo_script"
    by (simp add: files_of_def demo_simps del: ascii_simps)
  have "spec_run (files_of two_tables demo_sys) ?cs (descs_of demo_sys) = (rs, descs_of t)"
    using fd_layer_refines [OF _ _ ok run] by (simp add: two_tables_ok demo_simps del: ascii_simps)
  moreover have "lowest_free (descs_of demo_sys) = Some 3" by (simp add: lowest_free_descs demo_simps)
  moreover have "descs_of demo_sys 4 = None"
    by (simp add: descs_of_def fd_range_def desc_of_def demo_simps closed_fd_def)
  moreover from this have "lowest_free ((descs_of demo_sys)(3 \<mapsto> d)) = Some 4" for d
    by (intro lowest_freeI) (auto dest!: le_antisym [of 3] simp: less_Suc_eq_le numeral_eq_Suc)
  ultimately show ?thesis unfolding run
    by (simp add: fs fd_range_def Let_def len del: ascii_simps) (simp add: demo_script_def)
qed

end
