(* ===== verification/Long_Mode.thy ===== *)
theory Long_Mode
  imports Machine
begin

text \<open>
  The assembly entry points: boot/boot.S takes the processor from Multiboot's 32-bit protected mode
  to long mode behind page tables that map the first 512 MB to themselves, and kernel/entry64.S
  clears the kernel's static variables and calls \<open>kernel_main\<close>.  The model keeps the registers whose
  values outlive an instruction sequence; the direction flag is clear, as the loaders leave it.
  Addresses that the linker chooses are parameters.
\<close>

section \<open>State\<close>

record cpu = hw +
  cr0 :: u32
  cr3 :: u32
  cr4 :: u32
  efer :: u64
  stack_top :: u64      \<comment> \<open>the stack pointer\<close>
  gdt :: "u64 list"     \<comment> \<open>the descriptors \<open>lgdt\<close> has loaded\<close>
  code_seg :: u16
  data_seg :: u16             \<comment> \<open>and \<open>es\<close>, \<open>fs\<close>, \<open>gs\<close>, \<open>ss\<close>, which get the same value\<close>
  pc :: u64             \<comment> \<open>where control has been passed\<close>
  rdi :: u64            \<comment> \<open>from the firmware; on the other path left over, and never used\<close>

text \<open>The symbols of boot/linker.ld and of boot.S.\<close>

record symbols =
  bss_start :: u32
  bss_end :: u32
  stack_top_sym :: u32
  pml4 :: u32
  pdpt :: u32
  pd :: u32

text \<open>The symbols of kernel/kernel64.ld and of entry64.S.\<close>

record symbols64 =
  bss64_start :: u64
  bss64_end :: u64
  stack64_top :: u64
  uefi_system_table :: u64

definition multiboot_header :: "u32 list" where
  "multiboot_header = [0x1BADB002, 3, - (0x1BADB002 + 3)]"

definition gdt64 :: "u64 list" where
  "gdt64 = [0, 0x00AF9A000000FFFF, 0x00CF92000000FFFF]"

section \<open>boot.S\<close>

text \<open>\<open>rep stosl\<close>: \<open>ecx\<close> words of \<open>eax\<close> from \<open>edi\<close> on.\<close>

function rep_stosl :: "u32 \<Rightarrow> u32 \<Rightarrow> u32 \<Rightarrow> 'a hw_scheme \<Rightarrow> 'a hw_scheme" where
  "rep_stosl eax edi ecx s =
     (if ecx = 0 then s else rep_stosl eax (edi + 4) (ecx - 1) (store32 (ucast edi) eax s))"
  by pat_completeness auto
termination by (relation "measure (\<lambda>(_, _, ecx, _). unat ecx)") (auto simp: measure_unat)

declare rep_stosl.simps [simp del]

definition clear_bss :: "u32 \<Rightarrow> u32 \<Rightarrow> 'a hw_scheme \<Rightarrow> 'a hw_scheme" where
  "clear_bss lo hi s =
     (let edi = lo; ecx = hi - edi; ecx = drop_bit 2 ecx in rep_stosl 0 edi ecx s)"

text \<open>The loop at label 1: an entry of two words, then the next 2 MB page with its carry.\<close>

function fill_pd :: "u32 \<Rightarrow> u32 \<Rightarrow> u32 \<Rightarrow> u32 \<Rightarrow> 'a hw_scheme \<Rightarrow> 'a hw_scheme" where
  "fill_pd eax edx edi ecx s =
     (let s = store32 (ucast edi) eax s;
          s = store32 (ucast (edi + 4)) edx s;
          carry = (if eax + 0x200000 < eax then 1 else 0);
          eax = eax + 0x200000;
          edx = edx + 0 + carry;
          edi = edi + 8;
          ecx = ecx - 1
      in if ecx \<noteq> 0 then fill_pd eax edx edi ecx s else s)"
  by pat_completeness auto
termination
proof (relation "measure (\<lambda>(_, _, _, ecx, _). unat (ecx - 1))", goal_cases)
  case (2 eax edx edi ecx)
  then show ?case using measure_unat [of "ecx - 1"] by simp
qed simp

declare fill_pd.simps [simp del]

definition page_tables :: "symbols \<Rightarrow> 'a hw_scheme \<Rightarrow> 'a hw_scheme" where
  "page_tables y s =
     (let s = store32 (ucast (pml4 y)) (pdpt y OR 3) s;
          s = store32 (ucast (pdpt y)) (pd y OR 3) s
      in fill_pd 0x83 0 (pd y) 256 s)"

definition start :: "symbols \<Rightarrow> 'a cpu_scheme \<Rightarrow> 'a cpu_scheme" where
  "start y s =
     (let s = s\<lparr>stack_top := ucast (stack_top_sym y)\<rparr>;
          s = clear_bss (bss_start y) (bss_end y) s;
          s = page_tables y s;
          s = s\<lparr>cr4 := cr4 s OR (push_bit 5 1 OR push_bit 9 1 OR push_bit 10 1)\<rparr>;
          s = s\<lparr>cr0 := cr0 s AND NOT (push_bit 2 1) OR push_bit 1 1\<rparr>;
          s = s\<lparr>cr3 := pml4 y\<rparr>;
          s = s\<lparr>efer := efer s OR push_bit 8 1\<rparr>;
          s = s\<lparr>cr0 := cr0 s OR 0x80000001\<rparr>;
          s = s\<lparr>gdt := gdt64\<rparr>;
          s = s\<lparr>code_seg := 0x08\<rparr>;
          s = s\<lparr>data_seg := 0x10\<rparr>
      in s\<lparr>pc := 0x200000\<rparr>)"

section \<open>entry64.S\<close>

function rep_stosq :: "u64 \<Rightarrow> u64 \<Rightarrow> u64 \<Rightarrow> 'a hw_scheme \<Rightarrow> 'a hw_scheme" where
  "rep_stosq rax edi rcx s =
     (if rcx = 0 then s else rep_stosq rax (edi + 8) (rcx - 1) (store64 edi rax s))"
  by pat_completeness auto
termination by (relation "measure (\<lambda>(_, _, rcx, _). unat rcx)") (auto simp: measure_unat)

declare rep_stosq.simps [simp del]

text \<open>Up to the call of \<open>kernel_main\<close>.\<close>

definition start64 :: "symbols64 \<Rightarrow> 'a cpu_scheme \<Rightarrow> 'a cpu_scheme" where
  "start64 y s =
     (let s = store64 (uefi_system_table y) (rdi s) s;
          rcx = drop_bit 3 (bss64_end y - bss64_start y);
          s = rep_stosq 0 (bss64_start y) rcx s
      in s\<lparr>stack_top := stack64_top y\<rparr>)"

section \<open>Address translation\<close>

text \<open>
  The processor's walk through four levels of tables, with 1 GB and 2 MB pages: the physical address
  and whether it may be written, or a fault.
\<close>

definition table_index :: "nat \<Rightarrow> u64 \<Rightarrow> nat" where
  "table_index k va = unat va div 2 ^ k mod 512"

definition table_entry :: "memory \<Rightarrow> u64 \<Rightarrow> nat \<Rightarrow> u64" where
  "table_entry m t i = of_le (mem_bytes m (t + of_nat (8 * i)) 8)"

definition frame :: "nat \<Rightarrow> u64 \<Rightarrow> u64" where
  "frame k e = (e AND mask 52) AND NOT (mask k)"

definition canonical :: "u64 \<Rightarrow> bool" where
  "canonical va \<longleftrightarrow> unat va < 2 ^ 47 \<or> 2 ^ 64 - 2 ^ 47 \<le> unat va"

definition page_of :: "nat \<Rightarrow> bool \<Rightarrow> u64 \<Rightarrow> u64 \<Rightarrow> u64 \<times> bool" where
  "page_of k w e va = (frame k e + (va AND mask k), w \<and> bit e 1)"

definition translate :: "memory \<Rightarrow> u64 \<Rightarrow> u64 \<Rightarrow> (u64 \<times> bool) option" where
  "translate m root va =
     (if \<not> canonical va then None
      else let e4 = table_entry m (frame 12 root) (table_index 39 va)
      in if \<not> bit e4 0 then None
      else let e3 = table_entry m (frame 12 e4) (table_index 30 va)
      in if \<not> bit e3 0 then None
      else if bit e3 7 then Some (page_of 30 (bit e4 1) e3 va)
      else let e2 = table_entry m (frame 12 e3) (table_index 21 va)
      in if \<not> bit e2 0 then None
      else if bit e2 7 then Some (page_of 21 (bit e4 1 \<and> bit e3 1) e2 va)
      else let e1 = table_entry m (frame 12 e2) (table_index 12 va)
      in if \<not> bit e1 0 then None
      else Some (page_of 12 (bit e4 1 \<and> bit e3 1 \<and> bit e2 1) e1 va))"

section \<open>Lemmas\<close>

subsection \<open>Filling memory\<close>

lemma ucast_small: "a < 2 ^ 32 \<Longrightarrow> (ucast (of_nat a :: u32) :: u64) = of_nat a"
  by (simp add: word_unat_eq_iff unat_of_nat unsigned_ucast_eq take_bit_nat_eq_self)

lemma of_nat_not_0: "0 < n \<Longrightarrow> n < 2 ^ LENGTH('a) \<Longrightarrow> (of_nat n :: 'a::len word) \<noteq> 0"
  by (simp add: word_of_nat_eq_0_iff nat_dvd_not_less)

lemma store_store:
  assumes "length bs + n \<le> 2 ^ 64"
  shows "mem_put (mem (store n p w s)) (p + of_nat n) bs = mem_put (mem s) p (le_bytes n w @ bs)"
  using assms mem_put_append [of "le_bytes n w" bs "mem s" p] by (simp add: mem_store)

lemma rep_stosl_mem:
  assumes "a + 4 * n \<le> 2 ^ 32"
  shows "rep_stosl eax (of_nat a) (of_nat n) s
           = s\<lparr>mem := mem_put (mem s) (of_nat a) (concat (replicate n (le_bytes 4 eax)))\<rparr>"
  using assms
proof (induction n arbitrary: a s)
  case 0
  then show ?case by (simp add: rep_stosl.simps)
next
  case (Suc n)
  have nz: "(of_nat (Suc n) :: u32) \<noteq> 0" using Suc.prems by (intro of_nat_not_0) auto
  have "rep_stosl eax (of_nat a) (of_nat (Suc n)) s = rep_stosl eax (of_nat (a + 4)) (of_nat n) (store32 (of_nat a) eax s)"
    using nz Suc.prems by (subst rep_stosl.simps) (simp add: ucast_small add.commute)
  also have "\<dots> = (store32 (of_nat a) eax s)\<lparr>mem := mem_put (mem (store32 (of_nat a) eax s)) (of_nat a + of_nat 4)
      (concat (replicate n (le_bytes 4 eax)))\<rparr>"
    using Suc.prems by (subst Suc.IH) simp_all
  also have "\<dots> = s\<lparr>mem := mem_put (mem s) (of_nat a) (concat (replicate (Suc n) (le_bytes 4 eax)))\<rparr>"
    using Suc.prems by (subst store_store) (simp_all add: store_def length_concat sum_list_replicate)
  finally show ?case .
qed

lemma rep_stosq_mem:
  assumes "8 * n \<le> 2 ^ 64"
  shows "rep_stosq rax p (of_nat n) s
           = s\<lparr>mem := mem_put (mem s) p (concat (replicate n (le_bytes 8 rax)))\<rparr>"
  using assms
proof (induction n arbitrary: p s)
  case 0
  then show ?case by (simp add: rep_stosq.simps)
next
  case (Suc n)
  have nz: "(of_nat (Suc n) :: u64) \<noteq> 0" using Suc.prems by (intro of_nat_not_0) auto
  have "rep_stosq rax p (of_nat (Suc n)) s = rep_stosq rax (p + of_nat 8) (of_nat n) (store64 p rax s)"
    using nz by (subst rep_stosq.simps) simp
  also have "\<dots> = (store64 p rax s)\<lparr>mem := mem_put (mem (store64 p rax s)) (p + of_nat 8)
      (concat (replicate n (le_bytes 8 rax)))\<rparr>"
    using Suc.prems by (subst Suc.IH) simp_all
  also have "\<dots> = s\<lparr>mem := mem_put (mem s) p (concat (replicate (Suc n) (le_bytes 8 rax)))\<rparr>"
    using Suc.prems by (subst store_store) (simp_all add: store_def length_concat sum_list_replicate)
  finally show ?case .
qed

text \<open>
  The page directory: each turn of the loop stores a 64-bit entry.  Below 4 GB the upper half stays
  zero and the carry is never set.
\<close>

definition pd_entry :: "nat \<Rightarrow> u64" where
  "pd_entry b = of_nat b"

definition pd_bytes :: "nat \<Rightarrow> nat \<Rightarrow> bytes" where
  "pd_bytes b n = concat (map (\<lambda>i. le_bytes 8 (pd_entry (b + i * 0x200000))) [0..<n])"

lemma length_pd_bytes [simp]: "length (pd_bytes b n) = 8 * n"
  by (simp add: pd_bytes_def length_concat comp_def sum_list_triv del: le_bytes.simps)

lemma pd_bytes_Suc: "pd_bytes b (Suc n) = le_bytes 8 (pd_entry b) @ pd_bytes (b + 0x200000) n"
  by (simp add: pd_bytes_def upt_conv_Cons map_Suc_upt [symmetric] comp_def add.assoc
      del: le_bytes.simps upt_Suc map_Suc_upt)

lemma nth_le_bytes: "i < n \<Longrightarrow> le_bytes n w ! i = ucast (drop_bit (8 * i) w)"
proof (induction n arbitrary: i w)
  case (Suc n)
  then show ?case by (cases i) (simp_all add: add.commute)
qed simp

lemma le_bytes_word: "le_bytes 8 (ucast (w :: u32) :: u64) = le_bytes 4 w @ replicate 4 0"
proof (rule nth_equalityI)
  fix i assume "i < length (le_bytes 8 (ucast w :: u64))"
  then have i: "i < 8" by simp
  have "(ucast (drop_bit (8 * i) (ucast w :: u64)) :: u8) = (if i < 4 then ucast (drop_bit (8 * i) w) else 0)"
  proof (rule bit_word_eqI)
    fix n
    have "\<not> bit w (8 * i + n)" if "\<not> i < 4" using bit_imp_le_length [of w "8 * i + n"] that by auto
    then show "bit (ucast (drop_bit (8 * i) (ucast w :: u64)) :: u8) n = bit (if i < 4 then ucast (drop_bit (8 * i) w) else 0 :: u8) n"
      using i by (auto simp: bit_simps)
  qed
  with i show "le_bytes 8 (ucast w :: u64) ! i = (le_bytes 4 w @ replicate 4 0) ! i"
    by (simp add: nth_le_bytes nth_append del: le_bytes.simps)
qed simp

lemma pd_entry_low: "b < 2 ^ 32 \<Longrightarrow> pd_entry b = ucast (of_nat b :: u32)"
  by (simp add: pd_entry_def ucast_small)

lemma le_bytes_0: "le_bytes n 0 = replicate n 0"
  by (induction n) auto

lemma fill_pd_mem:
  assumes "0 < n" and "a + 8 * n < 2 ^ 32" and "b + n * 0x200000 < 2 ^ 32"
  shows "fill_pd (of_nat b) 0 (of_nat a) (of_nat n) s = s\<lparr>mem := mem_put (mem s) (of_nat a) (pd_bytes b n)\<rparr>"
  using assms
proof (induction n arbitrary: a b s)
  case (Suc n)
  let ?s = "store32 (of_nat (a + 4)) (0 :: u32) (store32 (of_nat a) (of_nat b :: u32) s)"
  have carry: "\<not> (of_nat b + 0x200000 < (of_nat b :: u32))"
    using Suc.prems by (simp add: word_less_nat_alt unat_word_ariths unat_of_nat)
  have more: "of_nat (Suc n) - 1 \<noteq> (0 :: u32) \<longleftrightarrow> 0 < n"
    using Suc.prems of_nat_not_0 [of n, where 'a = 32] by (cases n) auto
  have addr: "(ucast (of_nat a + 4 :: u32) :: u64) = of_nat (a + 4)"
    using ucast_small [of "a + 4"] Suc.prems by simp
  have unroll: "fill_pd (of_nat b) 0 (of_nat a) (of_nat (Suc n)) s =
      (if 0 < n then fill_pd (of_nat (b + 0x200000)) 0 (of_nat (a + 8)) (of_nat n) ?s else ?s)"
    using carry Suc.prems
    by (subst fill_pd.simps) (simp add: Let_def more [simplified] addr [simplified] ucast_small add.commute)
  have s: "?s = s\<lparr>mem := mem_put (mem s) (of_nat a) (le_bytes 8 (pd_entry b))\<rparr>"
    using store_store [where bs = "le_bytes 4 (0 :: u32)" and n = 4 and s = s and p = "of_nat a" and w = "of_nat b :: u32"] Suc.prems
    by (simp add: store_def pd_entry_low le_bytes_word le_bytes_0 del: le_bytes.simps replicate.simps)
  show ?case
  proof (cases "0 < n")
    case True
    then have "fill_pd (of_nat (b + 0x200000)) 0 (of_nat (a + 8)) (of_nat n) ?s
        = ?s\<lparr>mem := mem_put (mem ?s) (of_nat (a + 8)) (pd_bytes (b + 0x200000) n)\<rparr>"
      using Suc.prems by (intro Suc.IH) simp_all
    also have "\<dots> = s\<lparr>mem := mem_put (mem s) (of_nat a) (pd_bytes b (Suc n))\<rparr>"
      unfolding s pd_bytes_Suc
      using mem_put_append [of "le_bytes 8 (pd_entry b)" "pd_bytes (b + 0x200000) n" "mem s" "of_nat a"] Suc.prems
      by (simp del: le_bytes.simps)
    finally show ?thesis unfolding unroll if_P [OF True] .
  next
    case False
    then show ?thesis unfolding unroll if_not_P [OF False] s by (simp add: pd_bytes_def del: le_bytes.simps)
  qed
qed simp

subsection \<open>The contents of a table\<close>

definition holds :: "memory \<Rightarrow> nat \<Rightarrow> (nat \<Rightarrow> u64) \<Rightarrow> bool" where
  "holds m t f \<longleftrightarrow> t + 4096 \<le> 2 ^ 32 \<and> (\<forall>i < 512. table_entry m (of_nat t) i = f i)"

lemma holds_entry: "holds m t f \<Longrightarrow> i < 512 \<Longrightarrow> table_entry m (of_nat t) i = f i"
  by (simp add: holds_def)

lemma mem_bytes_put_other:
  assumes "a + n \<le> 2 ^ 32" and "q + length bs \<le> 2 ^ 32" and "a + n \<le> q \<or> q + length bs \<le> a"
  shows "mem_bytes (mem_put m (of_nat q) bs) (of_nat a) n = mem_bytes m (of_nat a) n"
proof (cases "n = 0 \<or> bs = []")
  case False
  then have u: "unat (of_nat a :: u64) = a" "unat (of_nat q :: u64) = q"
    using assms(1,2) by (auto simp: unat_of_nat)
  show ?thesis
  proof (rule mem_bytes_frame)
    fix b :: ptr assume "in_region (of_nat a) n b"
    then have "a \<le> unat b" "unat b < a + n" using assms(1) by (simp_all add: in_region_iff u)
    then have "\<not> in_region (of_nat q) (length bs) b" using assms(2,3) by (auto simp: in_region_iff u)
    then show "mem_put m (of_nat q) bs b = m b" by (rule mem_frames(1))
  qed (use assms(1) in simp)
qed (auto simp: mem_bytes_none)

lemma entry_at: "table_entry m (of_nat t) i = of_le (mem_bytes m (of_nat (t + 8 * i)) 8)"
  by (simp add: table_entry_def)

lemma of_le_8 [simp]: "of_le (le_bytes 8 e) = (e :: u64)"
  by (simp add: of_le_le_bytes take_bit_word_eq_self del: le_bytes.simps)

lemma of_le_zeros: "of_le (replicate n 0) = (0 :: u64)"
  by (induction n) auto

lemma holds_other:
  assumes "holds m t f" and "q + length bs \<le> 2 ^ 32" and "t + 4096 \<le> q \<or> q + length bs \<le> t"
  shows "holds (mem_put m (of_nat q) bs) t f"
  using assms by (auto simp: holds_def entry_at mem_bytes_put_other simp del: of_nat_add)

lemma holds_zeroed:
  assumes "q \<le> t" and "t + 4096 \<le> q + k" and "q + k \<le> 2 ^ 32"
  shows "holds (mem_put m (of_nat q) (replicate k 0)) t (\<lambda>_. 0)"
proof -
  have "mem_bytes (mem_put m (of_nat q) (replicate k 0)) (of_nat (t + 8 * i)) 8 = replicate 8 0" if "i < 512" for i
  proof -
    have e: "of_nat (t + 8 * i) = (of_nat q + of_nat (t + 8 * i - q) :: u64)" using assms(1) by (simp flip: of_nat_add)
    show ?thesis unfolding e using assms that
      by (subst mem_bytes_put_part) (simp_all add: take_replicate drop_replicate min_def)
  qed
  then show ?thesis using assms by (simp add: holds_def entry_at of_le_zeros del: of_nat_add)
qed

lemma holds_word:
  assumes "holds m t (\<lambda>_. 0)" and "mem_bytes m (of_nat (t + 4)) 4 = replicate 4 0"
  shows "holds (mem_put m (of_nat t) (le_bytes 4 (w :: u32))) t ((\<lambda>_. 0)(0 := ucast w))"
proof -
  let ?m = "mem_put m (of_nat t) (le_bytes 4 w)"
  have t: "t + 4096 \<le> 2 ^ 32" using assms(1) by (simp add: holds_def)
  have lo: "take 4 (mem_bytes ?m (of_nat t) 8) = le_bytes 4 w"
    using mem_bytes_put [of "le_bytes 4 w" m "of_nat t"] mem_bytes_take [of 4 8 ?m "of_nat t"]
    by (simp del: le_bytes.simps)
  have "mem_bytes ?m (of_nat (t + 4)) 4 = replicate 4 0"
    using t assms(2) by (subst mem_bytes_put_other) (simp_all del: of_nat_add le_bytes.simps)
  then have hi: "drop 4 (mem_bytes ?m (of_nat t) 8) = replicate 4 0"
    using mem_bytes_drop [of 4 8 ?m "of_nat t"] by (simp del: le_bytes.simps)
  have "mem_bytes ?m (of_nat t) 8 = le_bytes 4 w @ replicate 4 0"
    using append_take_drop_id [of 4 "mem_bytes ?m (of_nat t) 8"] unfolding lo hi by simp
  also have "\<dots> = le_bytes 8 (ucast w :: u64)" by (rule le_bytes_word [symmetric])
  finally have zero: "table_entry ?m (of_nat t) 0 = ucast w" by (simp add: entry_at del: le_bytes.simps)
  have "table_entry ?m (of_nat t) i = 0" if "0 < i" "i < 512" for i
  proof -
    have "table_entry ?m (of_nat t) i = table_entry m (of_nat t) i"
      unfolding entry_at using t that by (subst mem_bytes_put_other) (simp_all del: le_bytes.simps of_nat_add)
    then show ?thesis using assms(1) that by (simp add: holds_def)
  qed
  with zero t show ?thesis by (simp add: holds_def del: le_bytes.simps)
qed

lemma take_drop_pd_bytes: "i < n \<Longrightarrow> take 8 (drop (8 * i) (pd_bytes b n)) = le_bytes 8 (pd_entry (b + i * 0x200000))"
proof (induction i arbitrary: b n)
  case 0
  then show ?case by (cases n) (simp_all add: pd_bytes_Suc del: le_bytes.simps)
next
  case (Suc i)
  then obtain k where n: "n = Suc k" by (cases n) auto
  have "drop (8 * Suc i) (pd_bytes b n) = drop (8 * i) (pd_bytes (b + 0x200000) k)"
    by (simp add: n pd_bytes_Suc del: le_bytes.simps)
  then show ?case using Suc.IH [of k "b + 0x200000"] Suc.prems
    by (simp add: n algebra_simps del: le_bytes.simps mult_Suc_right)
qed

lemma holds_entries:
  assumes "holds m t (\<lambda>_. 0)" and "n \<le> 512"
  shows "holds (mem_put m (of_nat t) (pd_bytes b n)) t (\<lambda>i. if i < n then pd_entry (b + i * 0x200000) else 0)"
proof -
  let ?m = "mem_put m (of_nat t) (pd_bytes b n)"
  have t: "t + 4096 \<le> 2 ^ 32" using assms(1) by (simp add: holds_def)
  have "table_entry ?m (of_nat t) i = pd_entry (b + i * 0x200000)" if "i < n" for i
  proof -
    have "mem_bytes ?m (of_nat t + of_nat (8 * i)) 8 = take 8 (drop (8 * i) (pd_bytes b n))"
      using that assms(2) by (intro mem_bytes_put_part) auto
    then show ?thesis unfolding table_entry_def using take_drop_pd_bytes [OF that] by (simp del: le_bytes.simps)
  qed
  moreover have "table_entry ?m (of_nat t) i = 0" if "n \<le> i" "i < 512" for i
  proof -
    have "table_entry ?m (of_nat t) i = table_entry m (of_nat t) i"
      unfolding entry_at using t that by (subst mem_bytes_put_other) (simp_all del: of_nat_add)
    then show ?thesis using assms(1) that by (simp add: holds_def)
  qed
  ultimately show ?thesis using t by (simp add: holds_def)
qed

subsection \<open>Walking the tables\<close>

lemma aligned_bits:
  assumes "4096 dvd unat (t :: 'a::len word)" and "n < 12"
  shows "\<not> bit t n"
proof -
  have "take_bit 12 (unat t) = 0" using assms(1) by (simp add: take_bit_eq_mod)
  then have "\<not> bit (take_bit 12 (unat t)) n" by simp
  with assms(2) show ?thesis by (auto simp: bit_take_bit_iff bit_unsigned_iff dest: bit_imp_le_length)
qed

lemma link_entry:
  assumes "4096 dvd unat (t :: u32)"
  shows "frame 12 (ucast (t OR 3)) = ucast t"
    and "bit (ucast (t OR 3) :: u64) 0" and "bit (ucast (t OR 3) :: u64) 1" and "\<not> bit (ucast (t OR 3) :: u64) 7"
proof -
  have three: "(3 :: u32) = mask 2" by (simp add: mask_eq_exp_minus_1)
  have t: "12 \<le> n \<and> n < 32" if "bit t n" for n
    using aligned_bits [OF assms, of n] bit_imp_le_length [OF that] that by (auto simp: not_less [symmetric])
  show "frame 12 (ucast (t OR 3)) = ucast t"
    unfolding three by (rule bit_word_eqI) (auto simp: frame_def bit_simps dest: t)
  show "bit (ucast (t OR 3) :: u64) 0" "bit (ucast (t OR 3) :: u64) 1" "\<not> bit (ucast (t OR 3) :: u64) 7"
    unfolding three by (auto simp: bit_simps dest: t)
qed

lemma unat_and_mask: "unat (e AND mask k :: 'a::len word) = unat e mod 2 ^ k"
  unfolding take_bit_eq_mask [symmetric] unsigned_take_bit_eq by (simp add: take_bit_nat_def)

lemma large_page_entry:
  assumes "i < 256"
  shows "bit (pd_entry (0x83 + i * 0x200000)) 0" and "bit (pd_entry (0x83 + i * 0x200000)) 1"
    and "bit (pd_entry (0x83 + i * 0x200000)) 7" and "frame 21 (pd_entry (0x83 + i * 0x200000)) = of_nat (i * 0x200000)"
proof -
  let ?e = "pd_entry (0x83 + i * 0x200000)"
  have u: "unat ?e = 0x83 + i * 0x200000"
    using assms by (simp add: pd_entry_def unat_of_nat del: of_nat_add)
  have b: "bit ?e n \<longleftrightarrow> odd ((0x83 + i * 0x200000) div 2 ^ n)" if "n < 64" for n
  proof -
    have "bit ?e n \<longleftrightarrow> bit (unat ?e) n" using that by (simp add: bit_unsigned_iff del: bit_0)
    then show ?thesis unfolding u bit_iff_odd .
  qed
  have "(0x83 + i * 0x200000) div 2 ^ 7 = 1 + i * 0x4000" "(0x83 + i * 0x200000) div 2 ^ 1 = 0x41 + i * 0x100000" by simp_all
  then show "bit ?e 0" "bit ?e 1" "bit ?e 7" by (simp_all add: b del: bit_0)
  have "unat (frame 21 ?e) = (0x83 + i * 0x200000) mod 2 ^ 52 - (0x83 + i * 0x200000) mod 2 ^ 52 mod 2 ^ 21"
    by (simp only: frame_def unat_and_not_mask unat_and_mask u)
  also have "\<dots> = i * 0x200000" using assms by simp
  finally have "(of_nat (unat (frame 21 ?e)) :: u64) = of_nat (i * 0x200000)" by (rule arg_cong)
  then show "frame 21 ?e = of_nat (i * 0x200000)" by (simp only: word_of_nat_unat)
qed

text \<open>The tables as boot.S leaves them, at addresses in its zeroed memory.\<close>

definition identity_tables :: "symbols \<Rightarrow> memory \<Rightarrow> bool" where
  "identity_tables y m \<longleftrightarrow>
     4096 dvd unat (pml4 y) \<and> 4096 dvd unat (pdpt y) \<and> 4096 dvd unat (pd y)
     \<and> holds m (unat (pml4 y)) ((\<lambda>_. 0)(0 := ucast (pdpt y OR 3)))
     \<and> holds m (unat (pdpt y)) ((\<lambda>_. 0)(0 := ucast (pd y OR 3)))
     \<and> holds m (unat (pd y)) (\<lambda>i. if i < 256 then pd_entry (0x83 + i * 0x200000) else 0)"

lemma table_index_less [simp]: "table_index k va < 512"
  by (simp add: table_index_def)

lemma frame_aligned:
  assumes "4096 dvd unat (t :: u32)"
  shows "frame 12 (ucast t) = ucast t"
proof -
  have t: "12 \<le> n \<and> n < 32" if "bit t n" for n
    using aligned_bits [OF assms, of n] bit_imp_le_length [OF that] that by (auto simp: not_less [symmetric])
  show ?thesis by (rule bit_word_eqI) (auto simp: frame_def bit_simps dest: t)
qed

lemma ucast_of_nat: "(ucast (t :: u32) :: u64) = of_nat (unat t)"
  by (simp add: word_unat_eq_iff unsigned_ucast_eq unat_of_nat take_bit_nat_eq_self)

lemma low_addresses:
  assumes "canonical va"
  shows "unat va < 2 ^ 29 \<longleftrightarrow> table_index 39 va = 0 \<and> table_index 30 va = 0 \<and> table_index 21 va < 256"
proof -
  define v where "v = unat va"
  have v: "v < 2 ^ 47 \<or> 2 ^ 64 - 2 ^ 47 \<le> v \<and> v < 2 ^ 64"
    using assms unat_bound [of va] by (auto simp: canonical_def v_def)
  show ?thesis
  proof (cases "v < 2 ^ 39")
    case True
    have "v div 2 ^ 39 = 0" "v div 2 ^ 30 < 512" "v div 2 ^ 21 = 512 * (v div 2 ^ 30) + v div 2 ^ 21 mod 512"
      using True by (simp_all add: div_mult2_eq [of v "2 ^ 21" 512, simplified])
    then show ?thesis unfolding table_index_def v_def [symmetric] by (simp, linarith)
  next
    case False
    define q where "q = v div 2 ^ 39"
    have "1 \<le> q \<and> q < 256 \<or> 33554176 \<le> q \<and> q < 33554432"
    proof (cases "v < 2 ^ 47")
      case True
      with False have "1 \<le> q" "q < 256" unfolding q_def by (simp_all add: less_mult_imp_div_less le_div_geq)
      then show ?thesis by simp
    next
      case False
      with v have "33554176 * 2 ^ 39 \<le> v" "v < 33554432 * 2 ^ 39" by auto
      then have "33554176 \<le> q" "q < 33554432"
        unfolding q_def by (simp_all only: less_mult_imp_div_less less_eq_div_iff_mult_less_eq zero_less_power zero_less_numeral)
      then show ?thesis by simp
    qed
    then have "q mod 512 \<noteq> 0"
    proof (elim disjE conjE)
      assume "33554176 \<le> q" "q < 33554432"
      then obtain r where r: "q = 65535 * 512 + (256 + r)" "r < 256" by (auto simp: le_iff_add)
      then have "q mod 512 = (256 + r) mod 512" by (simp only: mod_mult_self3)
      with r(2) show ?thesis by simp
    qed simp
    with False show ?thesis by (simp add: table_index_def v_def q_def)
  qed
qed

lemma holds_ucast: "holds m (unat (t :: u32)) f \<Longrightarrow> i < 512 \<Longrightarrow> table_entry m (ucast t) i = f i"
  unfolding ucast_of_nat [of t] by (rule holds_entry)

lemma page_base_offset:
  assumes "unat va < 2 ^ 29"
  shows "of_nat (table_index 21 va * 0x200000) + (va AND mask 21) = va"
proof -
  have "unat va div 2 ^ 21 < 256" using assms by (simp add: less_mult_imp_div_less)
  then have "table_index 21 va * 0x200000 + unat va mod 2 ^ 21 = unat va"
    unfolding table_index_def using div_mult_mod_eq [of "unat va" "2 ^ 21"] by simp
  then have "unat (of_nat (table_index 21 va * 0x200000) + (va AND mask 21)) = unat va"
    using assms by (simp add: unat_word_ariths unat_of_nat unat_and_mask del: of_nat_mult)
  then show ?thesis by (simp only: word_unat_eq_iff)
qed

lemma translate_identity:
  assumes "identity_tables y m"
  shows "translate m (ucast (pml4 y)) va = (if unat va < 0x20000000 then Some (va, True) else None)"
proof (cases "canonical va")
  case True
  have p4: "table_entry m (ucast (pml4 y)) i = (if i = 0 then ucast (pdpt y OR 3) else 0)"
    and p3: "table_entry m (ucast (pdpt y)) i = (if i = 0 then ucast (pd y OR 3) else 0)"
    and p2: "table_entry m (ucast (pd y)) i = (if i < 256 then pd_entry (0x83 + i * 0x200000) else 0)"
    if "i < 512" for i
    using assms holds_ucast [OF _ that] by (auto simp: identity_tables_def)
  have al: "4096 dvd unat (pml4 y)" "4096 dvd unat (pdpt y)" "4096 dvd unat (pd y)"
    using assms by (simp_all add: identity_tables_def)
  note low = low_addresses [OF True]
  note walk = translate_def Let_def frame_aligned [OF al(1)] p4 [OF table_index_less]
  show ?thesis
  proof (cases "unat va < 2 ^ 29")
    case in512: True
    let ?i = "table_index 21 va"
    have i: "?i < 256" "table_index 39 va = 0" "table_index 30 va = 0" using low in512 by auto
    have "translate m (ucast (pml4 y)) va = Some (page_of 21 True (pd_entry (0x83 + ?i * 0x200000)) va)"
      unfolding walk using True i link_entry [OF al(2)] link_entry [OF al(3)] large_page_entry [OF i(1)]
      by (simp add: p3 p2 del: bit_0)
    then show ?thesis using in512 large_page_entry(2,4) [OF i(1)] page_base_offset [OF in512]
      by (simp add: page_of_def)
  next
    case False
    then have "table_index 39 va \<noteq> 0 \<or> table_index 30 va \<noteq> 0 \<or> \<not> table_index 21 va < 256" using low by auto
    then have "translate m (ucast (pml4 y)) va = None"
      unfolding walk using True link_entry [OF al(2)] link_entry [OF al(3)]
      by (auto simp: p3 p2 simp del: bit_0)
    with False show ?thesis by simp
  qed
next
  case False
  then show ?thesis by (auto simp: translate_def canonical_def)
qed

text \<open>What boot.S leaves in memory.\<close>

definition tables_placed :: "symbols \<Rightarrow> bool" where
  "tables_placed y \<longleftrightarrow>
     4096 dvd unat (bss_start y) \<and> distinct [pml4 y, pdpt y, pd y]
     \<and> (\<forall>t \<in> {pml4 y, pdpt y, pd y}.
          4096 dvd unat t \<and> unat (bss_start y) \<le> unat t \<and> unat t + 4096 \<le> unat (bss_end y))"

lemma page_apart: "4096 dvd a \<Longrightarrow> 4096 dvd b \<Longrightarrow> a \<noteq> b \<Longrightarrow> a + 4096 \<le> b \<or> b + 4096 \<le> (a :: nat)"
  by (auto elim!: dvdE simp: neq_iff)

lemma clear_bss_mem:
  assumes "unat lo \<le> unat hi"
  shows "clear_bss lo hi s
           = s\<lparr>mem := mem_put (mem s) (of_nat (unat lo)) (replicate (4 * ((unat hi - unat lo) div 4)) 0)\<rparr>"
proof -
  have "unat (hi - lo) = unat hi - unat lo" using assms by (simp add: unat_sub word_le_nat_alt)
  then have "unat (drop_bit 2 (hi - lo)) = (unat hi - unat lo) div 4"
    by (simp only: unat_drop_bit_eq) (simp add: drop_bit_eq_div)
  then have d: "drop_bit 2 (hi - lo) = of_nat ((unat hi - unat lo) div 4)"
    by (metis word_of_nat_unat)
  have z: "concat (replicate n (le_bytes 4 (0 :: u32))) = replicate (4 * n) 0" for n
    by (induction n) (simp_all add: le_bytes_0 replicate_add del: le_bytes.simps)
  have "unat lo + 4 * ((unat hi - unat lo) div 4) \<le> 2 ^ 32"
    using assms unat_bound [of hi] by simp
  from rep_stosl_mem [OF this, of 0 s, unfolded z] show ?thesis
    by (simp add: clear_bss_def Let_def d del: of_nat_diff)
qed

lemma tables_placedD:
  assumes "tables_placed y" and "t \<in> {pml4 y, pdpt y, pd y}"
  shows "4096 dvd unat t" and "unat (bss_start y) \<le> unat t" and "unat t + 4096 \<le> unat (bss_end y)"
    and "unat t + 4096 < 2 ^ 32" and "unat (bss_start y) \<le> unat (bss_end y)"
  using assms unat_bound [of "bss_end y"] by (auto simp: tables_placed_def)

lemma tables_apart:
  assumes "tables_placed y" and "t \<in> {pml4 y, pdpt y, pd y}" and "u \<in> {pml4 y, pdpt y, pd y}" and "t \<noteq> u"
  shows "unat t + 4096 \<le> unat u \<or> unat u + 4096 \<le> unat t"
  using assms tables_placedD(1) [OF assms(1)] by (intro page_apart) (auto simp: word_unat_eq_iff)

lemma bss_tables_zero:
  assumes "tables_placed y" and "t \<in> {pml4 y, pdpt y, pd y}"
  shows "holds (mem (clear_bss (bss_start y) (bss_end y) s)) (unat t) (\<lambda>_. 0)"
    and "mem_bytes (mem (clear_bss (bss_start y) (bss_end y) s)) (of_nat (unat t + 4)) 4 = replicate 4 0"
proof -
  define lo hi k where "lo = unat (bss_start y)" and "hi = unat (bss_end y)" and "k = 4 * ((hi - lo) div 4)"
  note t = tables_placedD [OF assms, folded lo_def hi_def]
  have lo: "4096 dvd lo" using assms(1) by (simp add: tables_placed_def lo_def)
  have "4096 dvd unat t + 4096 - lo" using t(1) lo by (intro dvd_diff_nat dvd_add) auto
  then have "4 dvd unat t + 4096 - lo" by (rule dvd_trans [rotated]) simp
  moreover have "(unat t + 4096 - lo) div 4 \<le> (hi - lo) div 4" using t(2,3) by (intro div_le_mono) linarith
  ultimately have k: "unat t + 4096 \<le> lo + k" using t(2) unfolding k_def by auto
  have kle: "lo + k \<le> 2 ^ 32" using unat_bound [of "bss_end y"] t(5) unfolding k_def hi_def by simp
  have m: "mem (clear_bss (bss_start y) (bss_end y) s) = mem_put (mem s) (of_nat lo) (replicate k 0)"
    using t(5) by (subst clear_bss_mem) (simp_all add: lo_def hi_def k_def)
  show "holds (mem (clear_bss (bss_start y) (bss_end y) s)) (unat t) (\<lambda>_. 0)"
    unfolding m using t(2) k kle by (intro holds_zeroed)
  have e: "of_nat (unat t + 4) = (of_nat lo + of_nat (unat t + 4 - lo) :: u64)" using t(2) by (simp flip: of_nat_add)
  show "mem_bytes (mem (clear_bss (bss_start y) (bss_end y) s)) (of_nat (unat t + 4)) 4 = replicate 4 0"
    unfolding m e using t(2) k kle
    by (subst mem_bytes_put_part) (simp_all add: take_replicate drop_replicate min_def)
qed

lemma page_tables_mem:
  assumes "tables_placed y"
  shows "mem (page_tables y s) =
     mem_put (mem_put (mem_put (mem s) (of_nat (unat (pml4 y))) (le_bytes 4 (pdpt y OR 3)))
       (of_nat (unat (pdpt y))) (le_bytes 4 (pd y OR 3))) (of_nat (unat (pd y))) (pd_bytes 0x83 256)"
proof -
  define p4 p3 p2 where "p4 = unat (pml4 y)" and "p3 = unat (pdpt y)" and "p2 = unat (pd y)"
  have "p2 + 4096 < 2 ^ 32" using tables_placedD(4) [OF assms, of "pd y"] by (simp add: p2_def)
  moreover have "(of_nat p2 :: u32) = pd y" by (simp add: p2_def)
  ultimately have "fill_pd 0x83 0 (pd y) 256 u = u\<lparr>mem := mem_put (mem u) (of_nat p2) (pd_bytes 0x83 256)\<rparr>" for u :: "'a hw_scheme"
    using fill_pd_mem [where n = 256 and a = p2 and b = "0x83" and s = u] by simp
  then show ?thesis
    unfolding page_tables_def Let_def ucast_of_nat [of "pml4 y"] ucast_of_nat [of "pdpt y"]
      p4_def [symmetric] p3_def [symmetric] p2_def [symmetric]
    by (simp add: mem_store del: le_bytes.simps)
qed

lemma start_tables:
  assumes "tables_placed y"
  shows "identity_tables y (mem (page_tables y (clear_bss (bss_start y) (bss_end y) s)))"
proof -
  define p4 p3 p2 where "p4 = unat (pml4 y)" and "p3 = unat (pdpt y)" and "p2 = unat (pd y)"
  note defs = p4_def p3_def p2_def
  have ne: "pml4 y \<noteq> pdpt y" "pml4 y \<noteq> pd y" "pdpt y \<noteq> pd y" using assms by (simp_all add: tables_placed_def)
  have apart: "p4 + 4096 \<le> p3 \<or> p3 + 4096 \<le> p4" "p4 + 4096 \<le> p2 \<or> p2 + 4096 \<le> p4" "p3 + 4096 \<le> p2 \<or> p2 + 4096 \<le> p3"
    using tables_apart [OF assms _ _ ne(1)] tables_apart [OF assms _ _ ne(2)] tables_apart [OF assms _ _ ne(3)] by (simp_all add: defs)
  have range: "p4 + 4096 < 2 ^ 32" "p3 + 4096 < 2 ^ 32" "p2 + 4096 < 2 ^ 32"
    using tables_placedD(4) [OF assms] by (simp_all add: defs)
  let ?z = "mem (clear_bss (bss_start y) (bss_end y) s)"
  let ?m4 = "mem_put ?z (of_nat p4) (le_bytes 4 (pdpt y OR 3))"
  let ?m3 = "mem_put ?m4 (of_nat p3) (le_bytes 4 (pd y OR 3))"
  let ?m2 = "mem_put ?m3 (of_nat p2) (pd_bytes 0x83 256)"
  have z: "holds ?z p4 (\<lambda>_. 0)" "holds ?z p3 (\<lambda>_. 0)" "holds ?z p2 (\<lambda>_. 0)"
    unfolding defs by (rule bss_tables_zero [OF assms]; simp)+
  have z4: "mem_bytes ?z (of_nat (p4 + 4)) 4 = replicate 4 0" "mem_bytes ?z (of_nat (p3 + 4)) 4 = replicate 4 0"
    unfolding defs by (rule bss_tables_zero [OF assms]; simp)+
  have len: "length (le_bytes 4 t) = 4" for t :: u32 by simp
  note other = len length_pd_bytes
  have "holds ?m4 p3 (\<lambda>_. 0)" using apart range by (intro holds_other z) (auto simp: other)
  moreover have "mem_bytes ?m4 (of_nat (p3 + 4)) 4 = replicate 4 0"
    using apart range by (subst mem_bytes_put_other) (auto simp: other z4 simp del: of_nat_add)
  ultimately have p3: "holds ?m3 p3 ((\<lambda>_. 0)(0 := ucast (pd y OR 3)))" by (rule holds_word)
  have p4: "holds ?m3 p4 ((\<lambda>_. 0)(0 := ucast (pdpt y OR 3)))"
    using apart range by (intro holds_other holds_word z z4) (auto simp: other)
  have "holds ?m3 p2 (\<lambda>_. 0)" using apart range by (intro holds_other z) (auto simp: other)
  then have "holds ?m2 p2 (\<lambda>i. if i < 256 then pd_entry (0x83 + i * 0x200000) else 0)" by (rule holds_entries) simp
  moreover have "holds ?m2 p4 ((\<lambda>_. 0)(0 := ucast (pdpt y OR 3)))" "holds ?m2 p3 ((\<lambda>_. 0)(0 := ucast (pd y OR 3)))"
    using apart range by (intro holds_other p4 p3; auto simp: other)+
  ultimately show ?thesis
    using tables_placedD(1) [OF assms] unfolding identity_tables_def page_tables_mem [OF assms] defs by simp
qed

text \<open>The memory outside the three tables may change: the map stays.\<close>

definition off_tables :: "symbols \<Rightarrow> nat \<Rightarrow> nat \<Rightarrow> bool" where
  "off_tables y q n \<longleftrightarrow>
     (\<forall>t \<in> {pml4 y, pdpt y, pd y}. q + n \<le> unat t \<or> unat t + 4096 \<le> q)"

lemma holds_frame:
  assumes "holds m t f" and "\<And>a. t \<le> unat a \<Longrightarrow> unat a < t + 4096 \<Longrightarrow> m' a = m a"
  shows "holds m' t f"
proof -
  have t: "t + 4096 \<le> 2 ^ 32" using assms(1) by (simp add: holds_def)
  have "mem_bytes m' (of_nat (t + 8 * i)) 8 = mem_bytes m (of_nat (t + 8 * i)) 8" if "i < 512" for i
  proof (rule mem_bytes_frame)
    fix a :: ptr assume "in_region (of_nat (t + 8 * i)) 8 a"
    moreover have "unat (of_nat (t + 8 * i) :: u64) = t + 8 * i" using t that by (simp add: unat_of_nat del: of_nat_add)
    ultimately have "t + 8 * i \<le> unat a" "unat a < t + 8 * i + 8" using t that by (simp_all add: in_region_iff)
    then show "m' a = m a" using that by (intro assms(2)) simp_all
  qed simp
  then show ?thesis using assms(1) by (simp add: holds_def entry_at del: of_nat_add)
qed

lemma identity_tables_frame:
  assumes "identity_tables y m" and "off_tables y q n"
    and "\<And>a. \<not> (q \<le> unat a \<and> unat a < q + n) \<Longrightarrow> m' a = m a"
  shows "identity_tables y m'"
proof -
  have "holds m' (unat t) f" if "holds m (unat t) f" "t \<in> {pml4 y, pdpt y, pd y}" for t f
  proof (rule holds_frame [OF that(1)])
    fix a assume a: "unat t \<le> unat (a :: ptr)" "unat a < unat t + 4096"
    have "q + n \<le> unat t \<or> unat t + 4096 \<le> q" using assms(2) that(2) unfolding off_tables_def by blast
    then show "m' a = m a" using a by (intro assms(3)) linarith
  qed
  then show ?thesis using assms(1) by (simp add: identity_tables_def)
qed

subsection \<open>Clearing the kernel's variables\<close>

lemma start64_mem:
  assumes "8 dvd unat (bss64_start k)" and "8 dvd unat (bss64_end k)" and "bss64_start k \<le> bss64_end k"
  shows "mem (start64 k s) = mem_put (mem_put (mem s) (uefi_system_table k) (le_bytes 8 (rdi s)))
           (bss64_start k) (replicate (unat (bss64_end k) - unat (bss64_start k)) 0)"
proof -
  define n where "n = (unat (bss64_end k) - unat (bss64_start k)) div 8"
  have len: "unat (bss64_end k) - unat (bss64_start k) = 8 * n" using assms(1,2) by (simp add: n_def)
  have "unat (bss64_end k - bss64_start k) = 8 * n" using assms(3) by (simp add: unat_sub len)
  then have "unat (drop_bit 3 (bss64_end k - bss64_start k)) = n"
    by (simp only: unat_drop_bit_eq) (simp add: drop_bit_eq_div)
  then have d: "drop_bit 3 (bss64_end k - bss64_start k) = of_nat n" by (metis word_of_nat_unat)
  have z: "concat (replicate j (le_bytes 8 (0 :: u64))) = replicate (8 * j) 0" for j
    by (induction j) (simp_all add: le_bytes_0 replicate_add del: le_bytes.simps)
  have "8 * n \<le> 2 ^ 64" using unat_bound [of "bss64_end k"] by (simp flip: len)
  from rep_stosq_mem [OF this, of 0 "bss64_start k" "store64 (uefi_system_table k) (rdi s) s", unfolded z] show ?thesis
    by (simp add: start64_def Let_def d len mem_store del: le_bytes.simps)
qed

section \<open>Properties\<close>

text \<open>
  What the linker scripts give: boot/linker.ld puts the 32-bit part below 2 MB, and kernel64.ld the
  kernel from 2 MB on, with \<open>.data\<close> before an aligned \<open>.bss\<close>.
\<close>

definition boot_linked :: "symbols \<Rightarrow> bool" where
  "boot_linked y \<longleftrightarrow> tables_placed y \<and> unat (bss_end y) \<le> 0x200000"

definition kernel_linked :: "symbols64 \<Rightarrow> bool" where
  "kernel_linked k \<longleftrightarrow>
     0x200000 \<le> unat (uefi_system_table k) \<and> unat (uefi_system_table k) + 8 \<le> unat (bss64_start k)
     \<and> 8 dvd unat (bss64_start k) \<and> 8 dvd unat (bss64_end k) \<and> unat (bss64_start k) \<le> unat (bss64_end k)"

text \<open>An example of the addresses a link can give, and a machine before the first instruction.\<close>

definition demo_symbols :: symbols where
  "demo_symbols = \<lparr>bss_start = 0x104000, bss_end = 0x10B000, stack_top_sym = 0x108000,
     pml4 = 0x108000, pdpt = 0x109000, pd = 0x10A000\<rparr>"

definition demo_symbols64 :: symbols64 where
  "demo_symbols64 = \<lparr>bss64_start = 0x900000, bss64_end = 0x9000000, stack64_top = 0x8F00000,
     uefi_system_table = 0x8FFFF8\<rparr>"

definition demo_cpu :: cpu where
  "demo_cpu = \<lparr>mem = (\<lambda>_. 0xFF), port_in = (\<lambda>_ _. 0), port_pos = (\<lambda>_. 0), tsc_in = (\<lambda>_. 0), tsc_pos = 0, evs = [],
     cr0 = 0x11, cr3 = 0, cr4 = 0, efer = 0, stack_top = 0, gdt = [], code_seg = 0x10, data_seg = 0x18, pc = 0, rdi = 0x7000000\<rparr>"

lemma demo_linked: "boot_linked demo_symbols" "kernel_linked demo_symbols64"
  by (simp_all add: boot_linked_def tables_placed_def demo_symbols_def kernel_linked_def demo_symbols64_def)

lemma start_mem: "mem (start y s) = mem (page_tables y (clear_bss (bss_start y) (bss_end y) (s\<lparr>stack_top := ucast (stack_top_sym y)\<rparr>)))"
  by (simp add: start_def Let_def)

lemma start_identity: "boot_linked y \<Longrightarrow> identity_tables y (mem (start y s))"
  unfolding start_mem boot_linked_def by (rule start_tables) simp

text \<open>The loops write memory and nothing else.\<close>

lemma rep_stosl_frame: "\<exists>m. rep_stosl eax edi ecx s = s\<lparr>mem := m\<rparr>"
proof (induction eax edi ecx s rule: rep_stosl.induct)
  case (1 eax edi ecx s)
  show ?case
  proof (cases "ecx = 0")
    case True
    then have "rep_stosl eax edi ecx s = s\<lparr>mem := mem s\<rparr>" by (simp add: rep_stosl.simps)
    then show ?thesis by (intro exI [of _ "mem s"])
  next
    case False
    then show ?thesis using 1 by (subst rep_stosl.simps) (auto simp: store_def)
  qed
qed

lemma fill_pd_frame: "\<exists>m. fill_pd eax edx edi ecx s = s\<lparr>mem := m\<rparr>"
proof (induction eax edx edi ecx s rule: fill_pd.induct)
  case (1 eax edx edi ecx s)
  then show ?case by (subst fill_pd.simps) (auto simp: store_def Let_def)
qed

lemma tables_frame: "\<exists>m. page_tables y (clear_bss lo hi s) = s\<lparr>mem := m\<rparr>"
proof -
  obtain m where "clear_bss lo hi s = s\<lparr>mem := m\<rparr>" using rep_stosl_frame [of 0 lo "drop_bit 2 (hi - lo)" s] by (auto simp: clear_bss_def Let_def)
  moreover obtain m' where "fill_pd 0x83 0 (pd y) 256 (store32 (ucast (pdpt y)) (pd y OR 3) (store32 (ucast (pml4 y)) (pdpt y OR 3) (s\<lparr>mem := m\<rparr>)))
      = store32 (ucast (pdpt y)) (pd y OR 3) (store32 (ucast (pml4 y)) (pdpt y OR 3) (s\<lparr>mem := m\<rparr>))\<lparr>mem := m'\<rparr>"
    using fill_pd_frame by blast
  ultimately show ?thesis by (auto simp: page_tables_def Let_def store_def)
qed

text \<open>
  C8 (functional).  When boot.S enters the 64-bit kernel at 2 MB, the processor is in long mode with
  paging on and the floating point unit enabled for SSE, its code segment is a present 64-bit one, and
  the page tables translate every address below 512 MB to itself, writable, and fault on every other
  address.  The Multiboot header that got it there sums to zero.
\<close>

theorem identity_map:
  assumes "boot_linked y"
  shows "translate (mem (start y s)) (ucast (cr3 (start y s))) va
           = (if unat va < 512 * 1024 * 1024 then Some (va, True) else None)
         \<and> bit (cr0 (start y s)) 31 \<and> bit (cr0 (start y s)) 0 \<and> bit (cr4 (start y s)) 5 \<and> bit (efer (start y s)) 8
         \<and> \<not> bit (cr0 (start y s)) 2 \<and> bit (cr0 (start y s)) 1 \<and> bit (cr4 (start y s)) 9 \<and> bit (cr4 (start y s)) 10
         \<and> (let d = gdt (start y s) ! (unat (code_seg (start y s)) div 8) in bit d 43 \<and> bit d 44 \<and> bit d 47 \<and> bit d 53 \<and> \<not> bit d 54)
         \<and> pc (start y s) = 0x200000 \<and> sum_list multiboot_header = 0"
proof -
  have "identity_tables y (mem (start y s))" by (rule start_identity [OF assms])
  then have "translate (mem (start y s)) (ucast (cr3 (start y s))) va
      = (if unat va < 512 * 1024 * 1024 then Some (va, True) else None)"
    using translate_identity [of y "mem (start y s)" va] by (simp add: start_def Let_def)
  moreover obtain m where "page_tables y (clear_bss (bss_start y) (bss_end y) (s\<lparr>stack_top := ucast (stack_top_sym y)\<rparr>))
      = s\<lparr>stack_top := ucast (stack_top_sym y), mem := m\<rparr>"
    using tables_frame [of y "bss_start y" "bss_end y" "s\<lparr>stack_top := ucast (stack_top_sym y)\<rparr>"] by blast
  moreover have "bit (gdt64 ! 1) 43" "bit (gdt64 ! 1) 44" "bit (gdt64 ! 1) 47" "bit (gdt64 ! 1) 53" "\<not> bit (gdt64 ! 1) 54"
    by (simp_all add: gdt64_def)
  ultimately show ?thesis by (simp add: start_def Let_def bit_simps multiboot_header_def)
qed

theorem identity_map_witness:
  "translate (mem (start demo_symbols demo_cpu)) 0x108000 0x1F123456 = Some (0x1F123456, True)
   \<and> translate (mem (start demo_symbols demo_cpu)) 0x108000 0x20000000 = None"
  using identity_map [OF demo_linked(1), of demo_cpu "0x1F123456"] identity_map [OF demo_linked(1), of demo_cpu "0x20000000"]
  by (simp add: start_def Let_def) (simp add: demo_symbols_def)

lemma start64_frame:
  assumes "kernel_linked k"
    and "unat a < unat (uefi_system_table k) \<or> unat (uefi_system_table k) + 8 \<le> unat a \<and> unat a < unat (bss64_start k)
        \<or> unat (bss64_end k) \<le> unat a"
  shows "mem (start64 k s) a = mem s a"
proof -
  have k: "unat (uefi_system_table k) + 8 \<le> unat (bss64_start k)" "unat (bss64_start k) \<le> unat (bss64_end k)"
      "8 dvd unat (bss64_start k)" "8 dvd unat (bss64_end k)"
    using assms(1) by (simp_all add: kernel_linked_def)
  define n where "n = unat (bss64_end k) - unat (bss64_start k)"
  have n: "unat (bss64_start k) + n = unat (bss64_end k)" using k by (simp add: n_def)
  have "\<not> in_region (bss64_start k) (length (replicate n (0 :: u8))) a"
    using assms(2) k n unat_bound [of "bss64_end k"] by (subst in_region_iff) auto
  moreover have "\<not> in_region (uefi_system_table k) (length (le_bytes 8 (rdi s))) a"
    using assms(2) k unat_bound [of "bss64_end k"] by (subst in_region_iff) (auto simp del: le_bytes.simps)
  ultimately show ?thesis
    using start64_mem [of k s, folded n_def] k by (simp add: mem_frames word_le_nat_alt del: le_bytes.simps)
qed

text \<open>
  C19 (functional).  entry64.S, on both boot paths, calls \<open>kernel_main\<close> with every byte of the kernel's
  \<open>.bss\<close> zero, with the register that carries the firmware's system table saved in
  \<open>uefi_system_table\<close>, with the stack pointer at the top of the stack, and with every other byte of memory as it was.
\<close>

theorem kernel_entry:
  assumes "kernel_linked k"
  shows "mem_bytes (mem (start64 k s)) (bss64_start k) (unat (bss64_end k) - unat (bss64_start k))
           = replicate (unat (bss64_end k) - unat (bss64_start k)) 0
         \<and> load64 (uefi_system_table k) (start64 k s) = rdi s
         \<and> stack_top (start64 k s) = stack64_top k
         \<and> (\<forall>a. unat a < unat (uefi_system_table k) \<or> unat (uefi_system_table k) + 8 \<le> unat a \<and> unat a < unat (bss64_start k)
                \<or> unat (bss64_end k) \<le> unat a \<longrightarrow> mem (start64 k s) a = mem s a)"
proof -
  have k: "unat (uefi_system_table k) + 8 \<le> unat (bss64_start k)" "unat (bss64_start k) \<le> unat (bss64_end k)"
      "8 dvd unat (bss64_start k)" "8 dvd unat (bss64_end k)"
    using assms by (simp_all add: kernel_linked_def)
  define n where "n = unat (bss64_end k) - unat (bss64_start k)"
  have n: "n < 2 ^ 64" "unat (bss64_start k) + n = unat (bss64_end k)"
    using unat_bound [of "bss64_end k"] k by (auto simp: n_def)
  let ?m1 = "mem_put (mem s) (uefi_system_table k) (le_bytes 8 (rdi s))"
  have m: "mem (start64 k s) = mem_put ?m1 (bss64_start k) (replicate n 0)"
    unfolding n_def using k by (intro start64_mem) (simp_all add: word_le_nat_alt)
  have "mem_bytes (mem (start64 k s)) (uefi_system_table k) 8 = mem_bytes ?m1 (uefi_system_table k) 8"
  proof (rule mem_bytes_frame)
    fix a assume "in_region (uefi_system_table k) 8 a"
    then have "unat a < unat (bss64_start k)" using k unat_bound [of "bss64_end k"] by (subst (asm) in_region_iff) auto
    then have "\<not> in_region (bss64_start k) (length (replicate n (0 :: u8))) a"
      using n unat_bound [of "bss64_end k"] by (subst in_region_iff) auto
    then show "mem (start64 k s) a = ?m1 a" unfolding m by (rule mem_frames(1))
  qed simp
  also have "\<dots> = le_bytes 8 (rdi s)"
    using mem_bytes_put [of "le_bytes 8 (rdi s)" "mem s" "uefi_system_table k"] by (simp del: le_bytes.simps)
  finally have "load64 (uefi_system_table k) (start64 k s) = rdi s" by (simp add: load_def del: le_bytes.simps)
  moreover have "mem_bytes (mem (start64 k s)) (bss64_start k) n = replicate n 0"
    using mem_bytes_put [of "replicate n 0" ?m1 "bss64_start k"] n(1) by (simp add: m del: le_bytes.simps)
  moreover have "stack_top (start64 k s) = stack64_top k" by (simp add: start64_def Let_def)
  ultimately show ?thesis using start64_frame [OF assms] unfolding n_def by blast
qed

theorem kernel_entry_witness:
  "mem (start64 demo_symbols64 demo_cpu) 0x8FFFF7 = 0xFF
   \<and> load64 0x8FFFF8 (start64 demo_symbols64 demo_cpu) = 0x7000000
   \<and> mem_bytes (mem (start64 demo_symbols64 demo_cpu)) 0x900000 0x8700000 = replicate 0x8700000 0"
  using kernel_entry [OF demo_linked(2), of demo_cpu] by (simp add: demo_symbols64_def demo_cpu_def)

end
