(* ===== verification/Address_Space.thy ===== *)
theory Address_Space
  imports Mmap Long_Mode
begin

text \<open>
  Where the memory system calls meet the page tables: what \<open>mmap\<close> hands out is memory the processor
  can reach, at the addresses it hands out.
\<close>

section \<open>Lemmas\<close>

text \<open>Whoever leaves the first 2 MB alone leaves the map of boot.S in force.\<close>

lemma low_memory_keeps_map:
  assumes "boot_linked y" and "kernel_linked k"
    and "\<And>a. unat a < 0x200000 \<Longrightarrow> m a = mem (start64 k (start y c)) a"
  shows "identity_tables y m"
proof (rule identity_tables_frame [OF start_identity [OF assms(1)]])
  show "off_tables y 0x200000 (2 ^ 64 - 0x200000)"
    using assms(1) by (auto simp: off_tables_def boot_linked_def tables_placed_def)
  fix a :: ptr assume "\<not> (0x200000 \<le> unat a \<and> unat a < 0x200000 + (2 ^ 64 - 0x200000))"
  then have "unat a < 0x200000" using unat_bound [of a] by auto
  then show "m a = mem (start y c) a"
    using assms(2,3) by (simp add: start64_frame kernel_linked_def)
qed

section \<open>Properties\<close>

text \<open>
  C9 (safety).  On the Multiboot path, with the sections where the linker scripts put them, from a state whose
  mmap mark is between 256 MB and 496 MB and whose first 2 MB of memory are as the entry code left
  them, for a sequence of \<open>mmap\<close> requests of at most 2^63 bytes each: every address of every block
  obtained is translated to itself and is writable, whatever has been stored in the blocks (and only
  there) since.  For longer requests the end of a block can wrap, and the block then covers addresses
  that are not mapped.
\<close>

theorem mmap_blocks_mapped:
  fixes s :: "'a sys_scheme"
  assumes "boot_linked y" and "kernel_linked k"
    and low: "\<And>a. unat a < 0x200000 \<Longrightarrow> mem s a = mem (start64 k (start y c)) a"
    and "mmap_inv s" and "\<forall>r \<in> set rs. unat (fst r) \<le> 2 ^ 63"
    and "run_allocs mmap_alloc (\<lambda>r. unat (fst r)) rs s = (bs, t)"
    and "(p, n) \<in> set bs" and "in_region p n a"
    and stores: "\<And>a. m a \<noteq> mem t a \<Longrightarrow> \<exists>(q, j) \<in> set bs. in_region q j a"
  shows "translate m (ucast (pml4 y)) a = Some (a, True)"
proof -
  note run = mmap_heap.run_allocs_limit [OF assms(4-6)] mmap_heap.run_allocs_inv [OF assms(4-6)]
  have base: "unat MMAP_BASE \<le> page_mark s"
    using assms(4) page_mark_props(1) [OF assms(4)] by (simp add: mmap_inv_def word_le_nat_alt)
  have block: "0x10000000 \<le> unat b \<and> unat b < 0x1F000000" if "(q, j) \<in> set bs" "in_region q j b" for q j b
  proof -
    have "0x10000000 \<le> unat q" "unat q + j \<le> 0x1F000000"
      using run(2) that(1) base by (auto simp: within_def)
    with that(2) show ?thesis by (subst (asm) in_region_iff) auto
  qed
  have "identity_tables y m"
  proof (rule low_memory_keeps_map [OF assms(1,2)])
    fix b :: ptr assume b: "unat b < 0x200000"
    then have "m b = mem t b" using stores [of b] block by fastforce
    also have "\<dots> = mem s b" using mmap_heap.run_allocs_frame [OF assms(4-6), of b] b base by simp
    finally show "m b = mem (start64 k (start y c)) b" using low [OF b] by simp
  qed
  with block [OF assms(7,8)] show ?thesis by (simp add: translate_identity)
qed

definition entered_sys :: sys where
  "entered_sys = demo_sys\<lparr>mem := mem (start64 demo_symbols64 (start demo_symbols demo_cpu))\<rparr>"

theorem mmap_blocks_mapped_witness:
  "let (bs, t) = run_allocs mmap_alloc (\<lambda>r. unat (fst r)) [(8192, 3)] entered_sys
   in bs = [(0x10000000, 8192)] \<and> translate (mem_put (mem t) 0x10001F00 [1, 2, 3]) 0x108000 0x10001F02 = Some (0x10001F02, True)"
proof -
  have inv: "mmap_inv entered_sys" and mark: "page_mark entered_sys = 0x10000000"
    using demo_mmap by (simp_all add: entered_sys_def mmap_inv_def page_mark_def)
  obtain t where run: "run_allocs mmap_alloc (\<lambda>r. unat (fst r)) [(8192, 3)] entered_sys = ([(0x10000000, 8192)], t)"
    by (simp add: mmap_alloc_eq [OF inv] sys_mmap_eq [OF inv] mark)
  have "translate (mem_put (mem t) 0x10001F00 [1, 2, 3]) (ucast (pml4 demo_symbols)) 0x10001F02 = Some (0x10001F02, True)"
  proof (rule mmap_blocks_mapped [OF demo_linked _ inv _ run, where p = "0x10000000" and n = 8192])
    fix a assume "mem_put (mem t) 0x10001F00 [1, 2, 3] a \<noteq> mem t a"
    then have "in_region 0x10001F00 3 a" using mem_frames(1) [of "0x10001F00" "[1, 2, 3]" a "mem t"] by (auto simp: numeral_3_eq_3)
    then show "\<exists>(q, j) \<in> set [(0x10000000, 8192)]. in_region q j a" by (simp add: in_region_iff)
  qed (simp_all add: entered_sys_def in_region_def)
  then show ?thesis unfolding run Let_def by (simp add: demo_symbols_def)
qed

end
