(* ===== verification/Config.thy ===== *)
theory Config
  imports Syscall
begin

text \<open>
  cruby\_build/include/ruby/config.h and verconf.h: what CRuby's sources are told about the machine when they
  are compiled.  The files are lists of macros; here config.h is compared with the part of the
  system that has to honour it, the system calls of the kernel.
\<close>

section \<open>The headers\<close>

datatype macro =
    Text string                    \<comment> \<open>object-like: the replacement text\<close>
  | Params "string list" string    \<comment> \<open>function-like: parameters and replacement text\<close>

type_synonym header = "(string \<times> macro) list"

abbreviation flag :: "string \<Rightarrow> string \<times> macro" where "flag n \<equiv> (n, Text ''1'')"

text \<open>Lines 2 to 97: headers of the C library, and the sizes of the basic types.\<close>

definition config_system :: header where
  "config_system =
     [flag ''INCLUDE_RUBY_CONFIG_H'', flag ''HAVE_STDIO_H'', flag ''HAVE_STDLIB_H'',
      flag ''HAVE_STRING_H'', flag ''HAVE_INTTYPES_H'', flag ''HAVE_STDINT_H'', flag ''HAVE_STRINGS_H'',
      flag ''HAVE_SYS_STAT_H'', flag ''HAVE_SYS_TYPES_H'', flag ''HAVE_UNISTD_H'',
      flag ''HAVE_WCHAR_H'', flag ''STDC_HEADERS'', flag ''_ALL_SOURCE'', flag ''_DARWIN_C_SOURCE'',
      flag ''_GNU_SOURCE'', flag ''_HPUX_ALT_XOPEN_SOCKET_API'', flag ''_NETBSD_SOURCE'',
      flag ''_OPENBSD_SOURCE'', flag ''_POSIX_PTHREAD_SEMANTICS'',
      flag ''__STDC_WANT_IEC_60559_ATTRIBS_EXT__'', flag ''__STDC_WANT_IEC_60559_BFP_EXT__'',
      flag ''__STDC_WANT_IEC_60559_DFP_EXT__'', flag ''__STDC_WANT_IEC_60559_FUNCS_EXT__'',
      flag ''__STDC_WANT_IEC_60559_TYPES_EXT__'', flag ''__STDC_WANT_LIB_EXT2__'',
      flag ''__STDC_WANT_MATH_SPEC_FUNCS__'', flag ''_TANDEM_SOURCE'', flag ''__EXTENSIONS__'',
      (''RUBY_SYMBOL_EXPORT_BEGIN'', Text ''_Pragma(\"GCC visibility push(default)\")''),
      (''RUBY_SYMBOL_EXPORT_END'', Text ''_Pragma(\"GCC visibility pop\")''),
      flag ''HAVE_STMT_AND_DECL_IN_EXPR'', flag ''HAVE_PTHREAD_H'', flag ''_REENTRANT'',
      flag ''_THREAD_SAFE'', flag ''HAVE_LIBPTHREAD'',
      (''THREAD_IMPL_H'', Text ''\"thread_pthread.h\"''),
      (''THREAD_IMPL_SRC'', Text ''\"thread_pthread.c\"''), flag ''HAVE_DIRENT_H'', flag ''HAVE__BOOL'',
      flag ''HAVE_STDBOOL_H'', flag ''HAVE_SYS_WAIT_H'', flag ''HAVE_GRP_H'', flag ''HAVE_FCNTL_H'',
      flag ''HAVE_FLOAT_H'', flag ''HAVE_LANGINFO_H'', flag ''HAVE_LIMITS_H'', flag ''HAVE_LOCALE_H'',
      flag ''HAVE_PWD_H'', flag ''HAVE_STDALIGN_H'', flag ''HAVE_STDIO_H'', flag ''HAVE_SYS_FCNTL_H'',
      flag ''HAVE_SYS_FILE_H'', flag ''HAVE_SYS_IOCTL_H'', flag ''HAVE_SYS_PARAM_H'',
      flag ''HAVE_SYS_PRCTL_H'', flag ''HAVE_SYS_RANDOM_H'', flag ''HAVE_SYS_RESOURCE_H'',
      flag ''HAVE_SYS_SELECT_H'', flag ''HAVE_SYS_SENDFILE_H'', flag ''HAVE_SYS_SYSCALL_H'',
      flag ''HAVE_SYS_TIME_H'', flag ''HAVE_SYS_TIMES_H'', flag ''HAVE_SYS_UIO_H'',
      flag ''HAVE_SYSCALL_H'', flag ''HAVE_TIME_H'', flag ''HAVE_UTIME_H'', flag ''HAVE_STDATOMIC_H'',
      flag ''HAVE_TYPEOF'', (''restrict'', Text ''__restrict__''), flag ''HAVE_LONG_LONG'',
      flag ''HAVE_OFF_T'', (''SIZEOF_INT'', Text ''4''), (''SIZEOF_SHORT'', Text ''2''),
      (''SIZEOF_LONG'', Text ''8''), (''SIZEOF_LONG_LONG'', Text ''8''),
      (''SIZEOF___INT64'', Text ''0''), (''SIZEOF___INT128'', Text ''16''),
      (''SIZEOF_OFF_T'', Text ''8''), (''SIZEOF_VOIDP'', Text ''8''), (''SIZEOF_FLOAT'', Text ''4''),
      (''SIZEOF_DOUBLE'', Text ''8''), (''SIZEOF_TIME_T'', Text ''8''),
      (''SIZEOF_CLOCK_T'', Text ''8'')]"

text \<open>Lines 98 to 209: system types, attributes, and the members of structures.\<close>

definition config_types :: header where
  "config_types =
     [(''RBIMPL_ATTR_PACKED_STRUCT_BEGIN'', Params [] ''''),
      (''RBIMPL_ATTR_PACKED_STRUCT_END'', Params [] ''__attribute__((packed))''),
      flag ''USE_UNALIGNED_MEMBER_ACCESS'', (''PRI_LL_PREFIX'', Text ''\"ll\"''), flag ''HAVE_PID_T'',
      (''rb_pid_t'', Text ''pid_t''), (''SIGNEDNESS_OF_PID_T'', Text ''-1''),
      (''PIDT2NUM'', Params [''v''] ''INT2NUM(v)''), (''NUM2PIDT'', Params [''v''] ''NUM2INT(v)''),
      (''PRI_PIDT_PREFIX'', Text ''PRI_INT_PREFIX''), flag ''HAVE_UID_T'',
      (''rb_uid_t'', Text ''uid_t''), (''SIGNEDNESS_OF_UID_T'', Text ''+1''),
      (''UIDT2NUM'', Params [''v''] ''UINT2NUM(v)''), (''NUM2UIDT'', Params [''v''] ''NUM2UINT(v)''),
      (''PRI_UIDT_PREFIX'', Text ''PRI_INT_PREFIX''), flag ''HAVE_GID_T'',
      (''rb_gid_t'', Text ''gid_t''), (''SIGNEDNESS_OF_GID_T'', Text ''+1''),
      (''GIDT2NUM'', Params [''v''] ''UINT2NUM(v)''), (''NUM2GIDT'', Params [''v''] ''NUM2UINT(v)''),
      (''PRI_GIDT_PREFIX'', Text ''PRI_INT_PREFIX''), flag ''HAVE_TIME_T'',
      (''rb_time_t'', Text ''time_t''), (''SIGNEDNESS_OF_TIME_T'', Text ''-1''),
      (''TIMET2NUM'', Params [''v''] ''LONG2NUM(v)''), (''NUM2TIMET'', Params [''v''] ''NUM2LONG(v)''),
      (''PRI_TIMET_PREFIX'', Text ''PRI_LONG_PREFIX''), flag ''HAVE_DEV_T'',
      (''rb_dev_t'', Text ''dev_t''), (''SIGNEDNESS_OF_DEV_T'', Text ''+1''),
      (''DEVT2NUM'', Params [''v''] ''ULONG2NUM(v)''), (''NUM2DEVT'', Params [''v''] ''NUM2ULONG(v)''),
      (''PRI_DEVT_PREFIX'', Text ''PRI_LONG_PREFIX''), flag ''HAVE_MODE_T'',
      (''rb_mode_t'', Text ''mode_t''), (''SIGNEDNESS_OF_MODE_T'', Text ''+1''),
      (''MODET2NUM'', Params [''v''] ''UINT2NUM(v)''), (''NUM2MODET'', Params [''v''] ''NUM2UINT(v)''),
      (''PRI_MODET_PREFIX'', Text ''PRI_INT_PREFIX''), flag ''HAVE_RLIM_T'',
      (''rb_rlim_t'', Text ''rlim_t''), (''SIGNEDNESS_OF_RLIM_T'', Text ''+1''),
      (''RLIM2NUM'', Params [''v''] ''ULONG2NUM(v)''), (''NUM2RLIM'', Params [''v''] ''NUM2ULONG(v)''),
      (''PRI_RLIM_PREFIX'', Text ''PRI_LONG_PREFIX''), flag ''HAVE_OFF_T'',
      (''rb_off_t'', Text ''off_t''), (''SIGNEDNESS_OF_OFF_T'', Text ''-1''),
      (''OFFT2NUM'', Params [''v''] ''LONG2NUM(v)''), (''NUM2OFFT'', Params [''v''] ''NUM2LONG(v)''),
      (''PRI_OFFT_PREFIX'', Text ''PRI_LONG_PREFIX''), flag ''HAVE_CLOCKID_T'',
      (''rb_clockid_t'', Text ''clockid_t''), (''SIGNEDNESS_OF_CLOCKID_T'', Text ''-1''),
      (''CLOCKID2NUM'', Params [''v''] ''INT2NUM(v)''),
      (''NUM2CLOCKID'', Params [''v''] ''NUM2INT(v)''),
      (''PRI_CLOCKID_PREFIX'', Text ''PRI_INT_PREFIX''), flag ''HAVE_VA_ARGS_MACRO'',
      flag ''HAVE__ALIGNOF'', (''CONSTFUNC'', Params [''x''] ''__attribute__ ((__const__)) x''),
      (''PUREFUNC'', Params [''x''] ''__attribute__ ((__pure__)) x''),
      (''NORETURN'', Params [''x''] ''__attribute__ ((__noreturn__)) x''),
      (''DEPRECATED'', Params [''x''] ''__attribute__ ((__deprecated__)) x''),
      (''DEPRECATED_BY'', Params [''n'', ''x''] ''__attribute__ ((__deprecated__(\"by \"#n))) x''),
      (''NOINLINE'', Params [''x''] ''__attribute__ ((__noinline__)) x''),
      (''ALWAYS_INLINE'', Params [''x''] ''__attribute__ ((__always_inline__)) x''),
      (''NO_SANITIZE'', Params [''san'', ''x''] ''__attribute__ ((__no_sanitize__(san))) x''),
      (''NO_SANITIZE_ADDRESS'', Params [''x''] ''__attribute__ ((__no_sanitize_address__)) x''),
      (''NO_ADDRESS_SAFETY_ANALYSIS'', Params [''x''] ''__attribute__ ((__no_address_safety_analysis__)) x''),
      (''WARN_UNUSED_RESULT'', Params [''x''] ''__attribute__ ((__warn_unused_result__)) x''),
      (''MAYBE_UNUSED'', Params [''x''] ''__attribute__ ((__unused__)) x''),
      (''ERRORFUNC'', Params [''mesg'', ''x''] ''__attribute__ ((__error__ mesg)) x''),
      (''WARNINGFUNC'', Params [''mesg'', ''x''] ''__attribute__ ((__warning__ mesg)) x''),
      (''WEAK'', Params [''x''] ''__attribute__ ((__weak__)) x''), flag ''HAVE_FUNC_WEAK'',
      flag ''HAVE_NULLPTR'', (''FUNC_UNOPTIMIZED'', Params [''x''] ''x''),
      (''FUNC_MINIMIZED'', Params [''x''] ''x''), flag ''HAVE_ATTRIBUTE_FUNCTION_ALIAS'',
      (''RUBY_ALIAS_FUNCTION_TYPE'', Params [''type'', ''prot'', ''name'', ''args''] ''type prot __attribute__((alias(#name)));''),
      (''RUBY_ALIAS_FUNCTION_VOID'', Params [''prot'', ''name'', ''args''] ''RUBY_ALIAS_FUNCTION_TYPE(void, prot, name, args)''),
      flag ''HAVE_GCC_ATOMIC_BUILTINS'', flag ''HAVE_GCC_ATOMIC_BUILTINS_64'',
      flag ''HAVE_GCC_SYNC_BUILTINS'', flag ''HAVE___BUILTIN_UNREACHABLE'',
      (''RUBY_FUNC_EXPORTED'', Text ''__attribute__ ((__visibility__(\"default\"))) extern''),
      (''RUBY_FUNC_NONNULL'', Params [''n'', ''x''] ''__attribute__ ((__nonnull__(n))) x''),
      (''RUBY_FUNCTION_NAME_STRING'', Text ''__func__''), flag ''ENUM_OVER_INT'',
      (''HAVE_DECL_SYS_NERR'', Text ''0''), flag ''HAVE_DECL_GETENV'', (''SIZEOF_SIZE_T'', Text ''8''),
      (''SIZEOF_PTRDIFF_T'', Text ''8''), (''SIZEOF_DEV_T'', Text ''8''),
      (''PRI_SIZE_PREFIX'', Text ''\"z\"''), (''PRI_PTRDIFF_PREFIX'', Text ''\"t\"''),
      flag ''HAVE_STRUCT_STAT_ST_BLKSIZE'', flag ''HAVE_STRUCT_STAT_ST_BLOCKS'',
      flag ''HAVE_STRUCT_STAT_ST_RDEV'', (''SIZEOF_STRUCT_STAT_ST_SIZE'', Text ''SIZEOF_OFF_T''),
      (''SIZEOF_STRUCT_STAT_ST_BLOCKS'', Text ''SIZEOF_OFF_T''),
      (''SIZEOF_STRUCT_STAT_ST_INO'', Text ''SIZEOF_LONG''),
      (''SIZEOF_STRUCT_STAT_ST_DEV'', Text ''SIZEOF_DEV_T''),
      (''SIZEOF_STRUCT_STAT_ST_RDEV'', Text ''SIZEOF_DEV_T''), flag ''HAVE_STRUCT_STAT_ST_ATIM'',
      flag ''HAVE_STRUCT_STAT_ST_MTIM'', flag ''HAVE_STRUCT_STAT_ST_CTIM'',
      flag ''HAVE_STRUCT_TIMEVAL'', (''SIZEOF_STRUCT_TIMEVAL_TV_SEC'', Text ''SIZEOF_TIME_T'')]"

text \<open>Lines 210 to 339: fixed-width types, and functions up to \<open>lutimes\<close>.\<close>

definition config_functions :: header where
  "config_functions =
     [flag ''HAVE_STRUCT_TIMESPEC'', flag ''HAVE_STRUCT_TIMEZONE'', flag ''HAVE_RB_FD_INIT'',
      flag ''HAVE_INT8_T'', flag ''SIZEOF_INT8_T'', flag ''HAVE_UINT8_T'', flag ''SIZEOF_UINT8_T'',
      flag ''HAVE_INT16_T'', (''SIZEOF_INT16_T'', Text ''2''), flag ''HAVE_UINT16_T'',
      (''SIZEOF_UINT16_T'', Text ''2''), flag ''HAVE_INT32_T'', (''SIZEOF_INT32_T'', Text ''4''),
      flag ''HAVE_UINT32_T'', (''SIZEOF_UINT32_T'', Text ''4''), flag ''HAVE_INT64_T'',
      (''SIZEOF_INT64_T'', Text ''8''), flag ''HAVE_UINT64_T'', (''SIZEOF_UINT64_T'', Text ''8''),
      flag ''HAVE_INT128_T'', (''int128_t'', Text ''__int128''),
      (''SIZEOF_INT128_T'', Text ''SIZEOF___INT128''), flag ''HAVE_UINT128_T'',
      (''uint128_t'', Text ''unsigned __int128''), (''SIZEOF_UINT128_T'', Text ''SIZEOF___INT128''),
      flag ''HAVE_INTPTR_T'', (''SIZEOF_INTPTR_T'', Text ''8''), flag ''HAVE_UINTPTR_T'',
      (''SIZEOF_UINTPTR_T'', Text ''8''), flag ''HAVE_SSIZE_T'', (''SIZEOF_SSIZE_T'', Text ''8''),
      (''GETGROUPS_T'', Text ''gid_t''), flag ''HAVE_ALLOCA_H'', flag ''HAVE_ALLOCA'',
      flag ''HAVE_DUP'', flag ''HAVE_DUP2'', flag ''HAVE_ACOSH'', flag ''HAVE_CBRT'', flag ''HAVE_ERF'',
      flag ''HAVE_EXPLICIT_BZERO'', flag ''HAVE_FFS'', flag ''HAVE_FLOCK'', flag ''HAVE_HYPOT'',
      flag ''HAVE_LGAMMA_R'', flag ''HAVE_MEMMOVE'', flag ''HAVE_NAN'', flag ''HAVE_NEXTAFTER'',
      flag ''HAVE_STRCHR'', flag ''HAVE_STRERROR'', flag ''HAVE_STRLCAT'', flag ''HAVE_STRLCPY'',
      flag ''HAVE_STRSTR'', flag ''HAVE_TGAMMA'', flag ''HAVE_ISFINITE'', flag ''HAVE_SIGNBIT'',
      flag ''HAVE__LONGJMP'', flag ''HAVE_ATAN2L'', flag ''HAVE_ATAN2F'',
      flag ''HAVE_DECL_ATOMIC_SIGNAL_FENCE'', flag ''HAVE_CHMOD'', flag ''HAVE_CHOWN'',
      flag ''HAVE_CHROOT'', flag ''HAVE_CLOCK_GETTIME'', flag ''HAVE_COSH'', flag ''HAVE_DIRFD'',
      flag ''HAVE_DUP3'', flag ''HAVE_EACCESS'', flag ''HAVE_ENDGRENT'', flag ''HAVE_EXECL'',
      flag ''HAVE_EXECLE'', flag ''HAVE_EXECV'', flag ''HAVE_EXECVE'', flag ''HAVE_FCHDIR'',
      flag ''HAVE_FCHMOD'', flag ''HAVE_FCHOWN'', flag ''HAVE_FCNTL'', flag ''HAVE_FDATASYNC'',
      flag ''HAVE_FDOPENDIR'', flag ''HAVE_FMOD'', flag ''HAVE_FSTATAT'', flag ''HAVE_FSYNC'',
      flag ''HAVE_FTRUNCATE'', flag ''HAVE_FTRUNCATE64'', flag ''HAVE_GETCWD'', flag ''HAVE_GETEGID'',
      flag ''HAVE_GETEUID'', flag ''HAVE_GETGID'', flag ''HAVE_GETGRNAM'', flag ''HAVE_GETGRNAM_R'',
      flag ''HAVE_GETGROUPS'', flag ''HAVE_GETPGID'', flag ''HAVE_GETPGRP'', flag ''HAVE_GETPPID'',
      flag ''HAVE_GETPRIORITY'', flag ''HAVE_GETPWNAM'', flag ''HAVE_GETPWNAM_R'',
      flag ''HAVE_GETPWUID'', flag ''HAVE_GETPWUID_R'', flag ''HAVE_GETRANDOM'',
      flag ''HAVE_GETRESGID'', flag ''HAVE_GETRESUID'', flag ''HAVE_GETRLIMIT'', flag ''HAVE_GETSID'',
      flag ''HAVE_GETTIMEOFDAY'', flag ''HAVE_GETUID'', flag ''HAVE_GMTIME_R'',
      flag ''HAVE_INITGROUPS'', flag ''HAVE_IOCTL'', flag ''HAVE_KILL'', flag ''HAVE_KILLPG'',
      flag ''HAVE_LCHMOD'', flag ''HAVE_LCHOWN'', flag ''HAVE_LINK'', flag ''HAVE_LLABS'',
      flag ''HAVE_LOG2'', flag ''HAVE_LSTAT'']"

text \<open>Lines 340 to 488: the other functions, compiler builtins, threads and the platform.\<close>

definition config_rest :: header where
  "config_rest =
     [flag ''HAVE_LUTIMES'', flag ''HAVE_MALLOC_USABLE_SIZE'', flag ''HAVE_MBLEN'',
      flag ''HAVE_MEMALIGN'', flag ''HAVE_WRITEV'', flag ''HAVE_MEMRCHR'', flag ''HAVE_MEMMEM'',
      flag ''HAVE_MKFIFO'', flag ''HAVE_MKTIME'', flag ''HAVE_MMAP'', flag ''HAVE_MREMAP'',
      flag ''HAVE_OPENAT'', flag ''HAVE_PIPE'', flag ''HAVE_PIPE2'', flag ''HAVE_POLL'',
      flag ''HAVE_POSIX_FADVISE'', flag ''HAVE_POSIX_MADVISE'', flag ''HAVE_POSIX_MEMALIGN'',
      flag ''HAVE_PPOLL'', flag ''HAVE_PREAD'', flag ''HAVE_PWRITE'', flag ''HAVE_QSORT_R'',
      flag ''HAVE_READLINK'', flag ''HAVE_REALPATH'', flag ''HAVE_ROUND'', flag ''HAVE_SEEKDIR'',
      flag ''HAVE_SENDFILE'', flag ''HAVE_SETEGID'', flag ''HAVE_SETENV'', flag ''HAVE_SETEUID'',
      flag ''HAVE_SETGID'', flag ''HAVE_SETGROUPS'', flag ''HAVE_SETPGID'', flag ''HAVE_SETPGRP'',
      flag ''HAVE_SETREGID'', flag ''HAVE_SETRESGID'', flag ''HAVE_SETRESUID'', flag ''HAVE_SETREUID'',
      flag ''HAVE_SETRLIMIT'', flag ''HAVE_SETSID'', flag ''HAVE_SETUID'', flag ''HAVE_SIGACTION'',
      flag ''HAVE_SIGALTSTACK'', flag ''HAVE_SIGPROCMASK'', flag ''HAVE_SINH'', flag ''HAVE_SNPRINTF'',
      flag ''HAVE_SYMLINK'', flag ''HAVE_SYSCALL'', flag ''HAVE_SYSCONF'', flag ''HAVE_TANH'',
      flag ''HAVE_TELLDIR'', flag ''HAVE_TIMEGM'', flag ''HAVE_TIMES'', flag ''HAVE_TRUNCATE'',
      flag ''HAVE_TRUNCATE64'', flag ''HAVE_TZSET'', flag ''HAVE_UMASK'', flag ''HAVE_UNSETENV'',
      flag ''HAVE_UTIMENSAT'', flag ''HAVE_UTIMES'', flag ''HAVE_WAIT4'', flag ''HAVE_WAITPID'',
      flag ''HAVE_BUILTIN___BUILTIN_ALLOCA_WITH_ALIGN'', flag ''HAVE_BUILTIN___BUILTIN_ASSUME_ALIGNED'',
      flag ''HAVE_BUILTIN___BUILTIN_BSWAP16'', flag ''HAVE_BUILTIN___BUILTIN_BSWAP32'',
      flag ''HAVE_BUILTIN___BUILTIN_BSWAP64'', flag ''HAVE_BUILTIN___BUILTIN_POPCOUNT'',
      flag ''HAVE_BUILTIN___BUILTIN_POPCOUNTLL'', flag ''HAVE_BUILTIN___BUILTIN_CLZ'',
      flag ''HAVE_BUILTIN___BUILTIN_CLZL'', flag ''HAVE_BUILTIN___BUILTIN_CLZLL'',
      flag ''HAVE_BUILTIN___BUILTIN_CTZ'', flag ''HAVE_BUILTIN___BUILTIN_CTZLL'',
      flag ''HAVE_BUILTIN___BUILTIN_CONSTANT_P'', flag ''HAVE_BUILTIN___BUILTIN_CHOOSE_EXPR'',
      flag ''HAVE_BUILTIN___BUILTIN_CHOOSE_EXPR_CONSTANT_P'',
      flag ''HAVE_BUILTIN___BUILTIN_TYPES_COMPATIBLE_P'', flag ''HAVE_BUILTIN___BUILTIN_TRAP'',
      flag ''HAVE_BUILTIN___BUILTIN_EXPECT'', flag ''HAVE_BUILTIN___BUILTIN_ADD_OVERFLOW'',
      flag ''HAVE_BUILTIN___BUILTIN_ADD_OVERFLOW_P'', flag ''USE___BUILTIN_ADD_OVERFLOW_LONG_LONG'',
      flag ''HAVE_BUILTIN___BUILTIN_SUB_OVERFLOW'', flag ''HAVE_BUILTIN___BUILTIN_SUB_OVERFLOW_P'',
      flag ''USE___BUILTIN_SUB_OVERFLOW_LONG_LONG'', flag ''HAVE_BUILTIN___BUILTIN_MUL_OVERFLOW'',
      flag ''HAVE_BUILTIN___BUILTIN_MUL_OVERFLOW_P'', flag ''USE___BUILTIN_MUL_OVERFLOW_LONG_LONG'',
      flag ''HAVE_GNU_QSORT_R'', flag ''ATAN2_INF_C99'', flag ''HAVE_CLOCK_GETRES'',
      flag ''HAVE_STRUCT_TM_TM_ZONE'', flag ''HAVE_TM_ZONE'', flag ''HAVE_STRUCT_TM_TM_GMTOFF'',
      flag ''HAVE_DAYLIGHT'', flag ''NEGATIVE_TIME_T'', flag ''POSIX_SIGNAL'', flag ''HAVE_SIG_T'',
      (''RSHIFT'', Params [''x'', ''y''] ''((x)>>(int)(y))''), flag ''HAVE__SC_CLK_TCK'',
      (''STACK_GROW_DIRECTION'', Text ''-1''),
      (''COROUTINE_H'', Text ''\"coroutine/amd64/Context.h\"''), flag ''HAVE_SCHED_YIELD'',
      flag ''HAVE_PTHREAD_ATTR_SETINHERITSCHED'', flag ''HAVE_PTHREAD_ATTR_GETSTACK'',
      flag ''HAVE_PTHREAD_ATTR_GETGUARDSIZE'', flag ''HAVE_PTHREAD_CONDATTR_SETCLOCK'',
      flag ''HAVE_PTHREAD_SETNAME_NP'', flag ''HAVE_PTHREAD_SIGMASK'', flag ''HAVE_PTHREAD_GETATTR_NP'',
      (''SET_CURRENT_THREAD_NAME'', Params [''name''] ''pthread_setname_np(pthread_self(), name)''),
      (''SET_ANOTHER_THREAD_NAME'', Params [''thid'', ''name''] ''pthread_setname_np(thid, name)''),
      (''RB_THREAD_LOCAL_SPECIFIER'', Text ''_Thread_local''),
      (''DEFINE_MCONTEXT_PTR'', Params [''mc'', ''uc''] ''mcontext_t *mc = &(uc)->uc_mcontext''),
      (''HAVE_CONST_PAGE_SIZE'', Text ''0''), (''IOCTL_REQ_TYPE'', Text ''unsigned long''),
      (''NUM2IOCTLREQ'', Params [''num''] ''NUM2ULONG(num)''), flag ''HAVE__SETJMP'',
      (''RUBY_JMP_BUF'', Text ''jmp_buf''), (''RUBY_SETJMP'', Params [''env''] ''_setjmp(env)''),
      (''RUBY_LONGJMP'', Params [''env'', ''val''] ''_longjmp(env,val)''),
      (''USE_MODULAR_GC'', Text ''0''), (''USE_YJIT'', Text ''0''), (''USE_ZJIT'', Text ''0''),
      (''RUBY_PLATFORM'', Text ''\"x86_64-ruby-on-bare-metal\"''),
      (''RB_DEFAULT_PARSER'', Text ''RB_DEFAULT_PARSER_PRISM'')]"

definition config :: header where
  "config = config_system @ config_types @ config_functions @ config_rest"

text \<open>verconf.h.\<close>

definition verconf :: header where
  "verconf =
     [(''RUBY_BASE_NAME'', Text ''\"ruby\"''), (''RUBY_VERSION_NAME'', Text ''\"ruby\"''),
      (''RUBY_LIB_VERSION_STYLE'', Text ''3''), (''RUBY_EXEC_PREFIX'', Text ''\"\"''),
      (''RUBY_LIB_PREFIX'', Text ''\"\"''), (''RUBY_ARCH_PREFIX_FOR'', Params [''arch''] ''\"\"''),
      (''RUBY_SITEARCH_PREFIX_FOR'', Params [''arch''] ''\"\"''), (''RUBY_LIB'', Text ''\"\"''),
      (''RUBY_SITE_LIB'', Text ''\"\"''), (''RUBY_VENDOR_LIB'', Text ''\"\"'')]"

lemmas config_lines = config_def config_system_def config_types_def config_functions_def config_rest_def

section \<open>System calls\<close>

text \<open>
  Functions the configuration announces whose name is also the name of a Linux system call
  for which the kernel's switch has no case, with the number of that call in sys/syscall.h.
\<close>

definition refused_calls :: "(string \<times> u64) list" where
  "refused_calls =
     [(''HAVE_CHROOT'', 161), (''HAVE_FCHDIR'', 81), (''HAVE_FDATASYNC'', 75), (''HAVE_FSYNC'', 74),
      (''HAVE_FLOCK'', 73), (''HAVE_GETGROUPS'', 115), (''HAVE_GETPGID'', 121),
      (''HAVE_GETPRIORITY'', 140), (''HAVE_GETRESGID'', 120), (''HAVE_GETRESUID'', 118),
      (''HAVE_GETSID'', 124), (''HAVE_LCHOWN'', 94), (''HAVE_LINK'', 86), (''HAVE_SENDFILE'', 40),
      (''HAVE_SETGID'', 106), (''HAVE_SETGROUPS'', 116), (''HAVE_SETREGID'', 114),
      (''HAVE_SETRESGID'', 119), (''HAVE_SETRESUID'', 117), (''HAVE_SETREUID'', 113),
      (''HAVE_SETRLIMIT'', 160), (''HAVE_SETUID'', 105), (''HAVE_TRUNCATE'', 76),
      (''HAVE_UTIMENSAT'', 280), (''HAVE_UTIMES'', 235)]"

section \<open>Lemmas\<close>

lemma call_lines: "list_all (\<lambda>(f, nr). flag f \<in> set config) refused_calls"
  unfolding refused_calls_def list.pred_inject(2) prod.case
  unfolding config_lines
  by (simp only: set_append list.set insert_iff Un_iff simp_thms list.pred_inject(1))

lemma refused: "list_all (\<lambda>(f, nr). nr \<notin> set handled \<and> nr \<noteq> 0x8000000000000000) refused_calls"
  unfolding refused_calls_def list.pred_inject(2) prod.case
  unfolding handled_def syscall_table_def list.map fst_conv
  by simp

section \<open>Properties\<close>

text \<open>
  C31 (error).  Each of the 25 functions of the table is announced to CRuby by its macro in config.h,
  yet the kernel refuses the system call of that name: with tracing off, the dispatcher
  prints the number as unhandled and answers ENOSYS, on the serial console and on a UEFI console that
  is present and not inside an escape sequence.
\<close>

theorem refused_calls_fail:
  assumes "syscall_trace s = 0" and "(f, nr) \<in> set refused_calls"
  shows "flag f \<in> set config
     \<and> ruby_on_bare_metal_syscall (serial_build ft) nr a1 a2 a3 a4 a5 a6 s =
         Ret (- ENOSYS) (s\<lparr>evs := evs s @ com1 (ascii ''syscall: unhandled #'' @ signed_decimal (sint nr) @ [10])\<rparr>)
     \<and> (ansi_state s = ST_NORMAL \<and> has_con_out s \<longrightarrow>
         ruby_on_bare_metal_syscall (uefi_build ft) nr a1 a2 a3 a4 a5 a6 s =
         Ret (- ENOSYS) (s\<lparr>evs := evs s @ map text_event (ascii ''syscall: unhandled #'' @ signed_decimal (sint nr) @ [10])\<rparr>))"
proof -
  have nr: "nr \<notin> set handled" "nr \<noteq> 0x8000000000000000" "flag f \<in> set config"
    using assms(2) refused call_lines unfolding list_all_iff by auto
  then show ?thesis using unhandled_call [OF assms(1) nr(1,2), of ft] by blast
qed

theorem refused_calls_fail_witness:
  "ruby_on_bare_metal_syscall (serial_build two_tables) 280 0 0 0 0 0 0 demo_sys =
     Ret (- ENOSYS) (demo_sys\<lparr>evs := com1 (ascii ''syscall: unhandled #'' @ [50, 56, 48, 10])\<rparr>)"
proof -
  have "(''HAVE_UTIMENSAT'', 280) \<in> set refused_calls"
    unfolding refused_calls_def by (simp only: list.set insert_iff simp_thms)
  moreover have "syscall_trace demo_sys = 0" "evs demo_sys = []" by (simp_all add: demo_sys_def)
  ultimately show ?thesis
    using refused_calls_fail [of demo_sys "''HAVE_UTIMENSAT''" 280 two_tables]
    by (simp add: signed_decimal_def decimal.simps del: ascii_simps)
qed

end
