(* ===== verification/Abi.thy ===== *)
theory Abi
  imports C_Layout Pthread Syscall
begin

text \<open>
  The structures that the C library shares with the files under compat/, as those files declare them.
  The other theories write the offsets of their members and the sizes of the objects as numbers;
  here the numbers are checked against the declarations.
\<close>

section \<open>Declarations\<close>

abbreviation c_char :: ctype where "c_char \<equiv> scalar 1"
abbreviation c_short :: ctype where "c_short \<equiv> scalar 2"
abbreviation c_int_type :: ctype where "c_int_type \<equiv> scalar 4"
abbreviation c_long :: ctype where "c_long \<equiv> scalar 8"
abbreviation size_t :: ctype where "size_t \<equiv> scalar 8"

definition block_hdr :: members where
  "block_hdr = [(''size'', size_t), (''magic'', size_t)]"

definition iovec :: members where
  "iovec = [(''base'', pointer), (''len'', size_t)]"

definition pollfd :: members where
  "pollfd = [(''fd'', c_int_type), (''events'', c_short), (''revents'', c_short)]"

definition timeval :: members where
  "timeval = [(''tv_sec'', c_long), (''tv_usec'', c_long)]"

definition winsize :: members where
  "winsize = [(''rows'', c_short), (''cols'', c_short), (''xpixel'', c_short), (''ypixel'', c_short)]"

definition rlimit :: members where
  "rlimit = [(''cur'', c_long), (''max'', c_long)]"

definition pthread_t :: ctype where "pthread_t = c_long"
definition pthread_attr_t :: members where "pthread_attr_t = [(''data'', array c_char 64)]"
definition pthread_mutex_t :: members where "pthread_mutex_t = [(''data'', array c_char 48)]"
definition pthread_cond_t :: members where "pthread_cond_t = [(''data'', array c_char 48)]"
definition pthread_rwlock_t :: members where "pthread_rwlock_t = [(''data'', array c_char 56)]"
definition pthread_mutexattr_t :: members where "pthread_mutexattr_t = [(''data'', array c_char 8)]"
definition pthread_condattr_t :: members where "pthread_condattr_t = [(''data'', array c_char 8)]"
definition pthread_rwlockattr_t :: members where "pthread_rwlockattr_t = [(''data'', array c_char 8)]"

definition ptcb :: members where
  "ptcb = [(''f'', pointer), (''x'', pointer), (''next'', pointer)]"

section \<open>Lemmas\<close>

definition member_at :: "members \<Rightarrow> string \<Rightarrow> ptr \<Rightarrow> ptr" where
  "member_at ms f p = p + of_nat (the (offset_of ms f))"

definition sizeof :: "members \<Rightarrow> u64" where
  "sizeof ms = of_nat (size_of (struct ms))"

lemma offsets:
  "map (offset_of block_hdr) [''size'', ''magic''] = [Some 0, Some 8]"
  "map (offset_of iovec) [''base'', ''len''] = [Some 0, Some 8]"
  "map (offset_of pollfd) [''fd'', ''events'', ''revents''] = [Some 0, Some 4, Some 6]"
  "map (offset_of timeval) [''tv_sec'', ''tv_usec''] = [Some 0, Some 8]"
  "map (offset_of winsize) [''rows'', ''cols'', ''xpixel'', ''ypixel''] = [Some 0, Some 2, Some 4, Some 6]"
  "map (offset_of rlimit) [''cur'', ''max''] = [Some 0, Some 8]"
  "map (offset_of ptcb) [''f'', ''x'', ''next''] = [Some 0, Some 8, Some 16]"
  by code_simp+

lemma sizes:
  "map (\<lambda>ms. size_of (struct ms)) [block_hdr, iovec, pollfd, timeval, winsize, rlimit, ptcb] = [16, 16, 8, 16, 8, 16, 24]"
  "map (\<lambda>ms. size_of (struct ms))
     [pthread_attr_t, pthread_mutex_t, pthread_cond_t, pthread_rwlock_t, pthread_mutexattr_t, pthread_condattr_t, pthread_rwlockattr_t]
     = [64, 48, 48, 56, 8, 8, 8]"
  by code_simp+

lemmas layouts = offsets [unfolded list.map list.inject] sizes [unfolded list.map list.inject]

section \<open>The offsets in the handlers\<close>

text \<open>
  The numbers in the models of the handlers are the ones of the declarations: they address what the C library passes by the declared layouts: the block header in
  front of an allocation, the entries of \<open>writev\<close> and \<open>poll\<close>, the results of \<open>gettimeofday\<close>,
  \<open>TIOCGWINSZ\<close> and \<open>getrlimit\<close>, and the pthread objects, which are cleared over their whole size.
\<close>

lemma compat_layout:
  "HDR_SIZE = sizeof block_hdr \<and> member_at block_hdr ''magic'' q = q + 8
   \<and> of_nat (16 * i) = of_nat i * sizeof iovec \<and> member_at iovec ''len'' q = q + 8
   \<and> of_nat (8 * i) = of_nat i * sizeof pollfd \<and> poll_events q s = load16 (member_at pollfd ''events'' q) s
   \<and> poll_revents q s = load16 (member_at pollfd ''revents'' q) s
   \<and> do_getrlimit q s = (0, if q \<noteq> 0 then store64 (member_at rlimit ''max'' q) 1048576
                                            (store64 (member_at rlimit ''cur'' q) 1048576 s) else s)
   \<and> sys_gettimeofday q 0 s =
       (if q \<noteq> 0 then
          (let (ms, s1) = ruby_on_bare_metal_clock_millis s
           in (0, store64 (member_at timeval ''tv_usec'' q) (lmod ms 1000 * 1000)
                    (store64 (member_at timeval ''tv_sec'' q) (ldiv ms 1000) s1)))
        else (0, s))
   \<and> sys_ioctl fd 0x5413 q s = (0, if q \<noteq> 0 then store16 (member_at winsize ''ypixel'' q) 0 (store16 (member_at winsize ''xpixel'' q) 0
                                      (store16 (member_at winsize ''cols'' q) 80 (store16 (member_at winsize ''rows'' q) 25 s))) else s)
   \<and> pthread_attr_init q u = (0, memset q 0 (sizeof pthread_attr_t) u)
   \<and> pthread_getattr_np th q u = (0, memset q 0 (sizeof pthread_attr_t) u)
   \<and> pthread_mutex_init q r u = (0, memset q 0 (sizeof pthread_mutex_t) u)
   \<and> pthread_cond_init q r u = (0, memset q 0 (sizeof pthread_cond_t) u)
   \<and> pthread_rwlock_init q r u = (0, memset q 0 (sizeof pthread_rwlock_t) u)
   \<and> pthread_mutexattr_init q u = (0, memset q 0 (sizeof pthread_mutexattr_t) u)
   \<and> pthread_condattr_init q u = (0, memset q 0 (sizeof pthread_condattr_t) u)"
  by (simp add: member_at_def sizeof_def layouts sys_gettimeofday_def do_getrlimit_def sys_ioctl_def
      pthread_attr_init_def pthread_getattr_np_def pthread_mutex_init_def pthread_cond_init_def
      pthread_rwlock_init_def pthread_mutexattr_init_def pthread_condattr_init_def)

end
