(* ===== verification/Spec2Isabelle.thy ===== *)
theory Spec2Isabelle
  imports Boot Fd_Spec Address_Space Config Abi
begin

text \<open>
  A verification development for ruby-on-bare-metal: a small x86\_64 kernel that gives CRuby, linked
  with a patched musl, the Linux interface it expects, without an operating system.

  \<^bold>\<open>The program.\<close>  boot/boot.S and kernel/entry64.S (or, under UEFI, boot/uefi/shim.c) bring the
  processor to 64-bit mode and call \<open>kernel_main\<close>.  That initialises the console, the timer, the
  thread pointer and the kernel heap, checks the embedded files and runs the entry script with
  CRuby.  CRuby and musl call back: memory requests go to compat's malloc or, through \<open>mmap\<close>, to
  \<open>ruby_on_bare_metal_syscall\<close>; every other need (files, output, time, polling) is a system call.
  Output and input go to the COM1 line or, in the UEFI build, to the firmware console behind an
  ANSI escape sequence parser; console.h makes the choice.

  \<^bold>\<open>Theories and sources.\<close>
  \<^item> Prelude: words, outcomes (\<open>Ret\<close>: returns; \<open>Stop\<close>: halted, spinning or undefined behaviour),
    polling loops (\<open>spin\<close>), byte memory, rounding, decimals.  Machine: memory, ports, time stamp
    counter, and the log \<open>evs\<close> of everything sent to devices.
  \<^item> Serial: kernel/serial.c.  Uefi\_Console: kernel/uefi\_console.c.  Console: console.h and panic.c,
    with the contract of a console (locale \<open>console_contract\<close>), proved for both drivers.
  \<^item> Timer: kernel/timer.c.  Kernel\_Heap: kernel/memory.c.  Embedded\_Files: kernel/embedded\_files.c.
  \<^item> Bump: the interface of a bump allocator (locale), with the lemmas on the blocks a sequence of
    requests obtains; interpreted for the kernel heap, for \<open>mmap\<close> and for the C library heap.
  \<^item> Sys\_State, Fd\_Table, Fd\_Files, Mmap, Sys\_Misc, Syscall: compat/ruby\_on\_bare\_metal\_syscall.c, its
    state and number printing; the descriptors; \<open>mmap\<close> and \<open>mremap\<close>; time, randomness, polling and
    the small calls; the switch, as a table from numbers to handlers, and the step relation \<open>kstep\<close>.
    The locale \<open>sys_layer\<close> holds what is true over either console.  Fd\_Spec: descriptors as files with
    a position, the specification the descriptor calls implement.
  \<^item> Malloc: compat/ruby\_on\_bare\_metal\_malloc.c.  Pthread: compat/ruby\_on\_bare\_metal\_pthread.c.
  \<^item> Long\_Mode: boot/boot.S and kernel/entry64.S, with the processor's walk through the page tables.
    Address\_Space: \<open>mmap\<close> on top of those tables.
  \<^item> C\_Layout: how a C structure is laid out.  Efi\_Types: boot/uefi/efi.h.  Abi: the structures that
    compat/ shares with the C library.  Config: config.h and verconf.h of cruby\_build.
  \<^item> Shim: boot/uefi/shim.c.  Boot: kernel/kernel\_main.c, compat/ruby\_on\_bare\_metal\_compat.c and
    compat/ruby\_on\_bare\_metal\_enc.c; its locale \<open>line_console\<close> holds the runs whose console shows
    what is printed, and is interpreted for both builds.  This theory: the properties of the whole run.

  \<^bold>\<open>State.\<close>  One record, extended by each source file with its static variables: \<open>hw\<close>, \<open>uefi\<close> (key,
  parser), \<open>timer\<close>, \<open>kheap\<close>, \<open>sys\<close> (\<open>fd_table\<close>, \<open>mmap_next\<close>, the trace flag), \<open>libc\<close> (\<open>heap_used\<close>,
  \<open>errno\<close>), \<open>threads\<close>.  An operation is polymorphic in the extensions above it, so it applies to the
  whole kernel's state and visibly cannot touch them.  A C pointer is a 64-bit word into \<open>mem\<close>;
  structures the caller passes (\<open>iovec\<close>, \<open>pollfd\<close>, \<open>stat\<close>, block headers) live in \<open>mem\<close> at their
  x86-64 offsets, little endian.  Unsigned arithmetic is word arithmetic and wraps; \<open>int\<close> values
  are integers within their range, with \<open>c_int\<close> for the conversion of a \<open>long\<close>.

  \<^bold>\<open>What the lemmas show.\<close>  Serial: the line carries exactly the text, LF as CR LF, and reading
  delivers the next bytes received.  Uefi\_Console: parsing the written form of a sequence gives the
  one firmware call it means; output within the parser's capacity ends regularly, and for all output
  the parser's variables keep the range of a C \<open>int\<close>.  Heaps: the blocks
  of any sequence of requests are disjoint and inside their array.  Descriptors: a read stays in the
  buffer, reading an open file to its end gives its bytes, and every system call keeps the tables
  sound (\<open>sys_inv\<close>), hence every reachable state is sound; any sequence of calls returns what the
  specification of Fd\_Spec returns.  Malloc: contents survive \<open>realloc\<close> and \<open>mremap\<close>.  Long\_Mode: the
  page tables of boot.S are the identity on 512 MB, and the kernel starts with a zeroed \<open>.bss\<close>; so
  every block that \<open>mmap\<close> returns for a request of at most 2^63 bytes is mapped.  Efi\_Types, Abi: the
  declarations as data, and the offsets that follow from them.  Config: announced functions that the
  kernel refuses.  Boot: the transcript of a run, regular, with an
  exception, or without its script, in both builds.
  Some theorems state where the code does not do what it means to: parameters beyond the eighth,
  bright backgrounds, sizes that wrap, a descriptor slot that leaks, a cleanup handler that is not stored.

  \<^bold>\<open>Loops.\<close>  The loops of the assembly (\<open>rep stos\<close>, filling the page directory) run on their counter
  register and end because it falls.  Counted loops are recursion over the list of their indices; \<open>while\<close> loops over data are
  functions with a measure.  A polling loop is \<open>spin\<close>, a \<open>partial_function\<close> whose \<open>None\<close> is a device
  that never answers, and the outcome is then \<open>Stop Spinning\<close>; the theorems that code returns name
  the poll that succeeds.  \<open>read_all\<close>, the client's loop around \<open>read\<close>, has fuel: one more than the
  file's bytes is enough, which \<open>open_read_roundtrip\<close> proves.  Number printing needs at most 19 digits.

  \<^bold>\<open>Parameters.\<close>  CRuby (record \<open>cruby\<close>), the firmware (its keys and attribute as streams,
  \<open>AllocatePages\<close> as an argument), devices (what each port read returns), the generated file tables,
  and the addresses the linker chooses.  Hypotheses on them are named where they are used:
  \<open>tables_ok\<close> (paths are C strings, data pointers are not NULL), \<open>ruby_starts\<close>, \<open>ruby_answers\<close>,
  \<open>confined\<close>.  The kernel's static tables are separate from the byte memory: the model takes it
  that CRuby does not write over the kernel's own variables, and that an address a caller passes
  may be accessed.

  \<^bold>\<open>Not modelled.\<close>  The linker scripts and the Makefiles: the addresses they choose are parameters, with
  what they guarantee in \<open>boot_linked\<close> and \<open>kernel_linked\<close>.  The memory \<open>mem\<close> that entry64.S leaves
  and the static variables of the C files are not joined: the latter are record fields that start
  as the C initialisers say.  The page tables of the UEFI path are the firmware's.  Interrupts are off and
  no descriptor table for them exists.  The Ruby scripts, build tools, patches and the web page.  The
  sizes of musl's structures that no file of the repository declares are constants of the model.
\<close>

section \<open>The whole run\<close>

text \<open>
  CRuby acts on the kernel's state through system calls, its own memory and console output only,
  in every function the kernel calls, whether the function returns or not.  The steps are those of
  \<open>kstep\<close>, so this also limits a single block that CRuby requests with \<open>mmap\<close> or \<open>mremap\<close> to 2^63 bytes
  (\<open>block_sizes_ok\<close>); \<open>mmap_length_wraps\<close> shows what a larger request does to the mark.
\<close>

definition acts_by_calls :: "'a sys_scheme build \<Rightarrow> ('a sys_scheme \<Rightarrow> ('r, 'a sys_scheme) outcome) \<Rightarrow> bool" where
  "acts_by_calls b f \<longleftrightarrow> (\<forall>s. ends (\<lambda>t. \<exists>u. (kstep b)\<^sup>*\<^sup>* s u \<and> quiet u t) (f s))"

definition confined :: "'a sys_scheme build \<Rightarrow> 'a sys_scheme cruby \<Rightarrow> bool" where
  "confined b rb \<longleftrightarrow>
     (\<forall>p. acts_by_calls b (ruby_init_stack rb p)) \<and> acts_by_calls b (ruby_setup rb)
     \<and> acts_by_calls b (rb_call_builtin_inits rb) \<and> (\<forall>n. acts_by_calls b (ruby_script rb n))
     \<and> (\<forall>p. acts_by_calls b (rb_eval_string_protect rb p)) \<and> acts_by_calls b (rb_errinfo rb)
     \<and> (\<forall>n. acts_by_calls b (rb_intern rb n)) \<and> (\<forall>e m. acts_by_calls b (rb_funcall rb e m))
     \<and> (\<forall>v. acts_by_calls b (rb_string_value_cstr rb v))"

lemma silent_steps_safe:
  "sys_inv ft s \<Longrightarrow> sys_inv ft (init_musl_tls p s)" "sys_inv ft s \<Longrightarrow> sys_inv ft (memory_init s)"
  by (erule same_tables_inv [rotated], simp add: same_tables_def
        emit_def init_musl_tls_def Let_def wrmsr_def store_def memory_init_def)+

lemma timer_init_safe: "sys_inv ft s \<Longrightarrow> ends (sys_inv ft) (timer_init s)"
proof (rule ends_mono [OF timer_init_frame])
  fix t assume "sys_inv ft s" and "timer_frame s t"
  then have "same_tables s t" by (cases s, cases t) (simp add: timer_frame_def same_tables_def timer.defs)
  then show "sys_inv ft t" using \<open>sys_inv ft s\<close> by (rule same_tables_inv)
qed

context sys_layer
begin

lemma calls_safe:
  assumes "tables_ok (b_files b)" and "acts_by_calls b f" and "sys_inv (b_files b) s"
  shows "ends (sys_inv (b_files b)) (f s)"
proof -
  have step: "sys_inv (b_files b) t" if "(kstep b)\<^sup>*\<^sup>* s u" "quiet u t" for t u
    using reachable_inv [of s u] that assms(1,3) by (auto intro: same_tables_inv quiet_same)
  have "ends (\<lambda>t. \<exists>u. (kstep b)\<^sup>*\<^sup>* s u \<and> quiet u t) (f s)" using assms(2) unfolding acts_by_calls_def by blast
  then show ?thesis by (rule ends_mono) (blast intro: step)
qed

lemma console_safe:
  assumes "sys_inv ft s"
  shows "ends (sys_inv ft) (c_puts (b_con b) cs s)" "ends (sys_inv ft) (c_putc (b_con b) c s)"
    "ends (sys_inv ft) (panic (b_con b) msg s)" "sys_inv ft (c_init (b_con b) s)"
proof -
  have q: "sys_inv ft t" if "quiet s t" for t using that assms by (blast intro: same_tables_inv quiet_same)
  show "ends (sys_inv ft) (c_puts (b_con b) cs s)" "ends (sys_inv ft) (c_putc (b_con b) c s)"
    "ends (sys_inv ft) (panic (b_con b) msg s)"
    by (rule ends_mono [OF puts_ends] ends_mono [OF putc_ends] ends_mono [OF panic_ends], erule q)+
  show "sys_inv ft (c_init (b_con b) s)" using init_quiet by (rule q)
qed

lemma ruby_safe:
  assumes "tables_ok (b_files b)" and "confined b rb" and "sys_inv (b_files b) s"
  shows "ends (sys_inv (b_files b)) (ruby_init_stack rb p s)" "ends (sys_inv (b_files b)) (ruby_setup rb s)"
    "ends (sys_inv (b_files b)) (rb_call_builtin_inits rb s)" "ends (sys_inv (b_files b)) (ruby_script rb n s)"
    "ends (sys_inv (b_files b)) (rb_eval_string_protect rb p s)" "ends (sys_inv (b_files b)) (rb_errinfo rb s)"
    "ends (sys_inv (b_files b)) (rb_intern rb n s)" "ends (sys_inv (b_files b)) (rb_funcall rb e m s)"
    "ends (sys_inv (b_files b)) (rb_string_value_cstr rb e s)"
  using assms(2) unfolding confined_def by (blast intro: calls_safe [OF assms(1) _ assms(3)])+

lemma report_exception_safe:
  assumes ft: "tables_ok (b_files b)" and rb: "confined b rb" and "sys_inv (b_files b) s"
  shows "ends (sys_inv (b_files b)) (report_exception b rb s)"
proof -
  have "ends (sys_inv (b_files b)) (case str of None \<Rightarrow> Ret () t
      | Some cs \<Rightarrow> andThen (c_puts (b_con b) (ascii ''  '') t) (\<lambda>_ s6.
          andThen (c_puts (b_con b) cs s6) (\<lambda>_ s7. c_putc (b_con b) 10 s7)))" if "sys_inv (b_files b) t" for str t
    using that by (cases str) (auto intro!: ends_andThen console_safe simp del: ascii_simps)
  then show ?thesis
    using assms(3) unfolding report_exception_def
    by (intro ends_andThen ends_if ruby_safe [OF ft rb] console_safe) (simp_all del: ascii_simps)
qed

lemma demo_safe:
  assumes ft: "tables_ok (b_files b)" and rb: "confined b rb" and "sys_inv (b_files b) s"
  shows "ends (sys_inv (b_files b)) (ruby_on_bare_metal_cruby_demo u b rb anchor s)"
  unfolding ruby_on_bare_metal_cruby_demo_def Let_def
  using assms(3)
  by (intro ends_andThen ends_if ruby_safe [OF ft rb] console_safe report_exception_safe [OF ft rb])
     (simp_all del: ascii_simps)

lemma kernel_main_safe:
  assumes ft: "tables_ok (b_files b)" and rb: "confined b rb" and "sys_inv (b_files b) s"
  shows "ends (sys_inv (b_files b)) (kernel_main u b rb tls_mem anchor s)"
  unfolding kernel_main_def Let_def
  using assms(3)
  by (intro ends_andThen ends_if timer_init_safe console_safe demo_safe [OF ft rb])
     (simp_all add: silent_steps_safe console_safe del: ascii_simps)

end

section \<open>Properties\<close>

text \<open>
  C1 (safety).  From power-on to whatever end the run of the kernel comes to, on either build (the
  regular halt, a panic, an exit, a device that never answers, or the point where the console's
  parser would read beyond its parameters), the descriptor table is sound at that end: every open
  file is an embedded file, read within its bounds, and the mmap mark has stayed between 256 MB and
  496 MB.  Two things are required of CRuby: it touches the kernel's state only through system
  calls, its own memory and console output, and a single \<open>mmap\<close> or \<open>mremap\<close> call of it that returns
  asks for at most 2^63 bytes.  The limit is needed: the kernel's own check of the end of a block can
  wrap, and a reservation of 2^64 - 4096 bytes moves the mark back (\<open>mmap_length_wraps\<close>), at boot to
  below 256 MB.
\<close>

theorem kernel_run_sound:
  assumes "tables_ok ft" and "booted s" and "confined (kernel_build u ft) rb"
    and "kernel_main u (kernel_build u ft) rb tls_mem anchor s = Stop r t"
  shows "length (fd_table t) = MAX_FD
     \<and> (\<forall>i < MAX_FD. fe_data (fd_table t ! i) \<noteq> 0 \<longrightarrow>
          fe_used (fd_table t ! i) \<and> fe_offset (fd_table t ! i) \<le> fe_size (fd_table t ! i)
          \<and> (\<exists>p. files_map ft p = Some (fe_data (fd_table t ! i), fe_size (fd_table t ! i))))
     \<and> MMAP_BASE \<le> mmap_next t \<and> mmap_next t \<le> MMAP_LIMIT"
proof -
  have inv: "sys_inv ft t"
    using kernel_con.kernel_main_safe [where u = u and ft = ft, unfolded kernel_build_simps(1), OF assms(1,3) booted_inv [OF assms(2)]]
      assms(4) by (metis ends_simps(2))
  then show ?thesis
    using sys_inv_entries [OF inv] by (simp add: sys_inv_def fd_inv_def fds_ok_def mmap_inv_def)
qed

text \<open>A CRuby whose evaluation asks for two pages and prints.\<close>

definition mapping_ruby :: "file_tables \<Rightarrow> sys cruby" where
  "mapping_ruby ft = (sample_ruby [] 0 [])\<lparr>rb_eval_string_protect := (\<lambda>p s.
     case ruby_on_bare_metal_syscall (kernel_build False ft) 9 0 0x2000 3 0x22 (- 1) 0 s of
       Ret r t \<Rightarrow> Ret 0 (serial_puts (ascii ''mapped'') t) | Stop x t \<Rightarrow> Stop x s)\<rparr>"

lemma mapping_ruby_confined: "confined (kernel_build False ft) (mapping_ruby ft)"
proof -
  have refl: "acts_by_calls b (\<lambda>s. Ret x s)" for b :: "sys build" and x :: 'r
    by (auto simp: acts_by_calls_def intro!: exI [of _ s for s])
  have "acts_by_calls (kernel_build False ft) (rb_eval_string_protect (mapping_ruby ft) p)" for p
    unfolding acts_by_calls_def
  proof
    fix s :: sys
    show "ends (\<lambda>t. \<exists>u. (kstep (kernel_build False ft))\<^sup>*\<^sup>* s u \<and> quiet u t) (rb_eval_string_protect (mapping_ruby ft) p s)"
    proof (cases "ruby_on_bare_metal_syscall (kernel_build False ft) 9 0 0x2000 3 0x22 (- 1) 0 s")
      case (Ret r t)
      have "kstep (kernel_build False ft) s t" by (rule kstep.call [OF _ Ret]) (simp add: block_sizes_ok_def)
      moreover have "quiet t (serial_puts (ascii ''mapped'') t)"
        using serial_con.puts_quiet [of t "ascii ''mapped''"] by simp
      ultimately show ?thesis using Ret by (auto simp: mapping_ruby_def)
    next
      case (Stop x t)
      then show ?thesis by (auto simp: mapping_ruby_def intro!: exI [of _ s])
    qed
  qed
  then show ?thesis by (simp add: confined_def refl) (simp add: mapping_ruby_def sample_ruby_def refl)
qed

theorem kernel_run_sound_witness:
  "\<exists>r t. kernel_main False (serial_build boot_files) (mapping_ruby boot_files) 0x200000 0x9000 boot_sys = Stop r t
     \<and> mmap_next t \<le> MMAP_LIMIT"
proof -
  obtain r t where rt: "kernel_main False (kernel_build False boot_files) (mapping_ruby boot_files) 0x200000 0x9000 boot_sys = Stop r t"
    using kernel_main_stops by blast
  have "booted boot_sys" by (simp add: booted_def boot_sys_def)
  then show ?thesis
    using kernel_run_sound [OF boot_files_simps(1) _ mapping_ruby_confined rt] rt by auto
qed

text \<open>
  C14 (safety).  The UEFI application followed by the kernel returns to the firmware only when it
  could not get memory: then the status it returns is the firmware's error, and the kernel has not
  run.  Whatever the code before \<open>kernel_main\<close> does with the state (\<open>prepare\<close>) and whatever CRuby
  does, an entered kernel never comes back.
\<close>

theorem uefi_returns_only_without_memory:
  fixes s :: "'a sys_scheme"
  assumes "efi_main alloc (\<lambda>addr s. kernel_main True (uefi_build ft) rb tls_mem anchor (prepare addr s)) img img_end s = Ret status t"
  shows "status \<noteq> 0 \<and> (\<exists>a u v. alloc AllocateAnyPages EfiLoaderData (page_count img img_end) a u = (status, v))
     \<and> (\<forall>entry. efi_main alloc entry img img_end s = Ret status t)"
proof -
  show ?thesis
  proof (cases rule: efi_main_cases [of alloc img img_end s])
    case (jump a u)
    have "\<exists>x w. jump_to_kernel (\<lambda>addr s. kernel_main True (uefi_build ft) rb tls_mem anchor (prepare addr s)) a img img_end u = Stop x w"
      unfolding jump_to_kernel_def Let_def by (intro andThen_stops) simp
    then show ?thesis using assms unfolding jump by auto
  next
    case (refused status' a a' u v w)
    then have "status' = status" "w = t" using assms by simp_all
    with refused show ?thesis by auto
  qed
qed

theorem uefi_returns_only_without_memory_witness:
  "\<exists>t. efi_main (\<lambda>ty mty n a t. (0x8000000000000009, a, t))
        (\<lambda>addr s. kernel_main True (uefi_build boot_files) (sample_ruby [] 0 []) 0x200000 0x9000 s) 0x1000 0x1003 boot_sys
      = Ret 0x8000000000000009 t
     \<and> efi_main (\<lambda>ty mty n a t. (0x8000000000000009, a, t)) (\<lambda>addr s. Ret () s) 0x1000 0x1003 boot_sys = Ret 0x8000000000000009 t"
proof -
  let ?alloc = "\<lambda>ty mty n a t. (0x8000000000000009, a, t)"
  let ?entry = "\<lambda>addr s. kernel_main True (uefi_build boot_files) (sample_ruby [] 0 []) 0x200000 0x9000 s"
  obtain t where t: "efi_main ?alloc ?entry 0x1000 0x1003 boot_sys = Ret 0x8000000000000009 t"
    using efi_main_refused [where alloc = ?alloc and e = "0x8000000000000009" and img = "0x1000" and img_end = "0x1003" and s = boot_sys] by auto
  then show ?thesis
    using uefi_returns_only_without_memory [where prepare = "\<lambda>addr s. s", OF t] by blast
qed

end
